theory Spec2Isabelle
  imports Complex_Main "HOL-Library.Sublist"
begin

section \<open>Red tag form: aggregation, trend classification and flat-file export\<close>

text \<open>
  A shallow embedding of the data-transforming functions of \<^verbatim>\<open>script.js\<close>:
  \<^verbatim>\<open>exportToExcel\<close>, \<^verbatim>\<open>performAIAnalysis\<close> and \<^verbatim>\<open>formatTopItems\<close>.
  The DOM, the download, the webhook and the PDF rendering are not modelled.
\<close>

subsection \<open>Submission records\<close>

text \<open>
  A record of \<^verbatim>\<open>formDatabase\<close> is a JavaScript object. Every property read by the
  modelled functions is optional: \<open>None\<close> is \<^verbatim>\<open>undefined\<close> (the property is absent),
  \<open>Some s\<close> is the string \<open>s\<close>. The mock records carry \<^verbatim>\<open>date\<close> and no
  \<^verbatim>\<open>removalDate\<close>; the records of \<^verbatim>\<open>saveForm\<close> carry the form's fields.
  \<^verbatim>\<open>id\<close> is an integer (\<^verbatim>\<open>Date.now()\<close> or a sequence number); its field is named
  \<open>id_field\<close>, since \<open>id\<close> is the identity function of HOL. \<^verbatim>\<open>timestamp\<close> and
  \<^verbatim>\<open>attachedFiles\<close> are read by none of the modelled functions and are left out.
\<close>

record submission =
  id_field :: "int option"
  mfc :: "string option"
  removalDate :: "string option"
  date :: "string option"
  taggedBy :: "string option"
  itemType :: "string option"
  partNumber :: "string option"
  removedFrom :: "string option"
  serviceCallId :: "string option"
  reasonRemove :: "string option"
  comments :: "string option"

text \<open>A record with no property at all, the base of the worked examples.\<close>

definition blank :: submission where
  "blank = \<lparr>id_field = None, mfc = None, removalDate = None, date = None, taggedBy = None,
     itemType = None, partNumber = None, removedFrom = None, serviceCallId = None,
     reasonRemove = None, comments = None\<rparr>"

subsection \<open>JavaScript operators on optional strings\<close>

text \<open>\<^verbatim>\<open>undefined\<close> and the empty string are falsy; every other string is truthy.\<close>

fun truthy :: "string option \<Rightarrow> bool" where
  "truthy None = False"
| "truthy (Some s) = (s \<noteq> [])"

text \<open>\<^verbatim>\<open>a || b\<close>: the left operand when it is truthy, else the right one.\<close>

definition js_or :: "string option \<Rightarrow> string option \<Rightarrow> string option" where
  "js_or a b = (if truthy a then a else b)"

text \<open>What \<^verbatim>\<open>Array.prototype.join\<close> writes for an element: nothing for \<^verbatim>\<open>undefined\<close>.\<close>

fun join_text :: "string option \<Rightarrow> string" where
  "join_text None = []"
| "join_text (Some s) = s"

text \<open>
  Used as a property key, a value is converted to a string: \<^verbatim>\<open>undefined\<close> becomes
  the key \<^verbatim>\<open>"undefined"\<close>.
\<close>

fun property_key :: "string option \<Rightarrow> string" where
  "property_key None = ''undefined''"
| "property_key (Some s) = s"

text \<open>
  Decimal text of an integer, as \<^verbatim>\<open>Number.prototype.toString\<close> gives it (for
  magnitudes below \<open>10\<^sup>2\<^sup>1\<close>, which covers every \<^verbatim>\<open>Date.now()\<close>).
\<close>

function show_nat :: "nat \<Rightarrow> string" where
  "show_nat n = (if n < 10 then [''0123456789'' ! n]
                 else show_nat (n div 10) @ [''0123456789'' ! (n mod 10)])"
  by pat_completeness auto
termination
  by (relation "measure id") auto

definition show_int :: "int \<Rightarrow> string" where
  "show_int i = (if i < 0 then CHR ''-'' # show_nat (nat (- i)) else show_nat (nat i))"

text \<open>\<^verbatim>\<open>xs.join(sep)\<close> on strings.\<close>

fun join :: "string \<Rightarrow> string list \<Rightarrow> string" where
  "join sep [] = []"
| "join sep [x] = x"
| "join sep (x # y # ys) = x @ sep @ join sep (y # ys)"

text \<open>\<^verbatim>\<open>s.split(c)\<close> for a separator of one character; \<^verbatim>\<open>"".split(c)\<close> is \<^verbatim>\<open>[""]\<close>.\<close>

fun split :: "char \<Rightarrow> string \<Rightarrow> string list" where
  "split c [] = [[]]"
| "split c (x # xs) =
     (if x = c then [] # split c xs
      else (case split c xs of [] \<Rightarrow> [[x]] | w # ws \<Rightarrow> (x # w) # ws))"

subsection \<open>The flat-file exporter\<close>

definition headers :: "string list" where
  "headers = [''ID'', ''MFC'', ''Date'', ''Tagged By'', ''Item Type'',
     ''Part Number'', ''Asset SN'', ''Service Call ID'', ''Reason'', ''Comments'']"

text \<open>\<^verbatim>\<open>row.id || ''\<close>: the number when it is not zero, else the empty string.\<close>

definition id_text :: "int option \<Rightarrow> string" where
  "id_text v = (case v of None \<Rightarrow> [] | Some i \<Rightarrow> if i = 0 then [] else show_int i)"

text \<open>\<^verbatim>\<open>row.f || ''\<close> as \<^verbatim>\<open>join\<close> writes it.\<close>

definition or_empty :: "string option \<Rightarrow> string" where
  "or_empty v = join_text (js_or v (Some []))"

text \<open>\<^verbatim>\<open>s.replace(/,/g, ';')\<close>.\<close>

definition replace_commas :: "string \<Rightarrow> string" where
  "replace_commas s = map (\<lambda>c. if c = CHR '','' then CHR '';'' else c) s"

text \<open>The array of the ten cells of one row, before \<^verbatim>\<open>join(',')\<close>.\<close>

definition row_cells :: "submission \<Rightarrow> string list" where
  "row_cells row =
     [id_text (id_field row),
      or_empty (mfc row),
      join_text (js_or (js_or (removalDate row) (date row)) (Some [])),
      or_empty (taggedBy row),
      or_empty (itemType row),
      or_empty (partNumber row),
      or_empty (removedFrom row),
      or_empty (serviceCallId row),
      or_empty (reasonRemove row),
      replace_commas (or_empty (comments row))]"

text \<open>
  \<^verbatim>\<open>exportToExcel\<close>: the text \<^verbatim>\<open>csvContent\<close> handed to the \<^verbatim>\<open>Blob\<close>, as a function of
  \<^verbatim>\<open>formDatabase\<close>.
\<close>

definition row_line :: "submission \<Rightarrow> string" where
  "row_line row = join '','' (row_cells row)"

definition csv_lines :: "submission list \<Rightarrow> string list" where
  "csv_lines formDatabase = join '','' headers # map row_line formDatabase"

definition exportToExcel :: "submission list \<Rightarrow> string" where
  "exportToExcel formDatabase = join ''\<newline>'' (csv_lines formDatabase)"

subsection \<open>Counting objects\<close>

text \<open>
  A count held in \<^verbatim>\<open>partCounts\<close>, \<^verbatim>\<open>assetCounts\<close>, \<^verbatim>\<open>mfcCounts\<close> or
  \<^verbatim>\<open>reasonCounts\<close> is a number, except under a key that names a function inherited from
  \<^verbatim>\<open>Object.prototype\<close>: there \<^verbatim>\<open>(o[k] || 0) + 1\<close> is string concatenation.
\<close>

datatype jsval = Num nat | Str string

text \<open>
  The counting objects are created by \<^verbatim>\<open>{}\<close>, so they inherit from
  \<^verbatim>\<open>Object.prototype\<close>. Its function-valued properties (ECMAScript, with Annex B):
\<close>

definition inherited_functions :: "string list" where
  "inherited_functions = [''constructor'', ''hasOwnProperty'', ''isPrototypeOf'',
     ''propertyIsEnumerable'', ''toLocaleString'', ''toString'', ''valueOf'',
     ''__defineGetter__'', ''__defineSetter__'', ''__lookupGetter__'', ''__lookupSetter__'']"

text \<open>
  The text a built-in function converts to (\<^verbatim>\<open>Function.prototype.toString\<close>); the
  spacing is the engine's, here V8's. \<^verbatim>\<open>constructor\<close> is the function \<^verbatim>\<open>Object\<close>.
\<close>

definition native_source :: "string \<Rightarrow> string" where
  "native_source k =
     ''function '' @ (if k = ''constructor'' then ''Object'' else k) @ ''() { [native code] }''"

text \<open>
  The own properties of a counting object, in the order of their creation.
\<close>

type_synonym counts = "(string \<times> jsval) list"

text \<open>\<^verbatim>\<open>(v || 0) + 1\<close> for an own property's value \<open>v\<close>.\<close>

fun next_count :: "jsval \<Rightarrow> jsval" where
  "next_count (Num n) = Num (n + 1)"
| "next_count (Str s) = (if s = [] then Num 1 else Str (s @ ''1''))"

text \<open>
  \<^verbatim>\<open>o[k] = (o[k] || 0) + 1\<close>.
  \<^item> An own property is overwritten in place.
  \<^item> \<^verbatim>\<open>__proto__\<close> is an accessor of \<^verbatim>\<open>Object.prototype\<close>: the read gives the prototype
    object, the sum is the string \<^verbatim>\<open>"[object Object]1"\<close>, and the setter ignores a value
    that is neither an object nor \<^verbatim>\<open>null\<close>: no own property is created.
  \<^item> Under the name of an inherited function the read gives the function, the sum is its
    source text followed by \<^verbatim>\<open>1\<close>, and the assignment creates an own property.
  \<^item> Under any other key the read gives \<^verbatim>\<open>undefined\<close> and the own property is created
    with the number 1.
\<close>

definition proto_key :: string where
  "proto_key = ''__proto__''"

definition increment :: "counts \<Rightarrow> string \<Rightarrow> counts" where
  "increment o_counts k =
     (case map_of o_counts k of
        Some v \<Rightarrow> map (\<lambda>(k', v'). (k', if k' = k then next_count v else v')) o_counts
      | None \<Rightarrow>
          if k = proto_key then o_counts
          else if k \<in> set inherited_functions then o_counts @ [(k, Str (native_source k @ ''1''))]
          else o_counts @ [(k, Num 1)])"

text \<open>The \<^verbatim>\<open>forEach\<close> loop for one counting object, \<open>field\<close> the property it groups by.\<close>

definition count_field :: "(submission \<Rightarrow> string option) \<Rightarrow> submission list \<Rightarrow> counts" where
  "count_field field data = foldl (\<lambda>acc record. increment acc (property_key (field record))) [] data"

subsection \<open>\<^verbatim>\<open>Object.entries\<close>\<close>

text \<open>
  A key is an array index when it is the canonical decimal text of an integer below
  \<open>2\<^sup>3\<^sup>2 - 1\<close>. \<^verbatim>\<open>Object.entries\<close> lists the array-index keys first, in ascending
  numeric order, and then the other string keys in the order of their creation.
\<close>

definition is_digit :: "char \<Rightarrow> bool" where
  "is_digit c = (c \<in> set ''0123456789'')"

definition digit_value :: "char \<Rightarrow> nat" where
  "digit_value c = of_char c - 48"

definition decimal_value :: "string \<Rightarrow> nat" where
  "decimal_value s = foldl (\<lambda>acc c. 10 * acc + digit_value c) 0 s"

definition is_array_index :: "string \<Rightarrow> bool" where
  "is_array_index s =
     (s \<noteq> [] \<and> list_all is_digit s \<and> (s = ''0'' \<or> hd s \<noteq> CHR ''0'')
      \<and> decimal_value s < 2 ^ 32 - 1)"

definition object_entries :: "counts \<Rightarrow> counts" where
  "object_entries o_counts =
     sort_key (\<lambda>e. decimal_value (fst e)) (filter (\<lambda>e. is_array_index (fst e)) o_counts)
     @ filter (\<lambda>e. \<not> is_array_index (fst e)) o_counts"

subsection \<open>\<^verbatim>\<open>Array.prototype.sort\<close> with the comparator \<^verbatim>\<open>([,a], [,b]) => b - a\<close>\<close>

text \<open>\<^verbatim>\<open>ToNumber\<close> of a count; \<open>None\<close> is \<^verbatim>\<open>NaN\<close>, which every string of a counting object gives.\<close>

fun to_number :: "jsval \<Rightarrow> int option" where
  "to_number (Num n) = Some (int n)"
| "to_number (Str s) = None"

text \<open>The comparator; \<^verbatim>\<open>sort\<close> reads the result \<^verbatim>\<open>NaN\<close> as 0.\<close>

definition compare_counts :: "string \<times> jsval \<Rightarrow> string \<times> jsval \<Rightarrow> int" where
  "compare_counts x y =
     (case (to_number (snd y), to_number (snd x)) of
        (Some b, Some a) \<Rightarrow> b - a
      | _ \<Rightarrow> 0)"

text \<open>
  \<^verbatim>\<open>sort\<close> is stable: an element moves behind another one only when the comparator is
  positive. It is modelled as a stable insertion sort. (When a count is a string the
  comparator is not a consistent order and the standard leaves the result to the engine.)
\<close>

fun insert_sorted :: "string \<times> jsval \<Rightarrow> counts \<Rightarrow> counts" where
  "insert_sorted x [] = [x]"
| "insert_sorted x (y # ys) =
     (if compare_counts x y > 0 then y # insert_sorted x ys else x # y # ys)"

definition sort_desc :: "counts \<Rightarrow> counts" where
  "sort_desc xs = foldr insert_sorted xs []"

subsection \<open>The analysis\<close>

record entry =
  name :: string
  count :: jsval

record trend_info =
  trend :: string
  recentCount :: nat
  totalCount :: nat

record analysis =
  topParts :: "entry list"
  topAssets :: "entry list"
  trends :: trend_info
  mfcStats :: "entry list"

text \<open>\<^verbatim>\<open>.map(([name, count]) => ({ name, count }))\<close>\<close>

definition to_entry :: "string \<times> jsval \<Rightarrow> entry" where
  "to_entry p = \<lparr>name = fst p, count = snd p\<rparr>"

text \<open>The full ranking of a counting object, and its first five entries.\<close>

definition ranked :: "counts \<Rightarrow> entry list" where
  "ranked o_counts = map to_entry (sort_desc (object_entries o_counts))"

definition top5 :: "counts \<Rightarrow> entry list" where
  "top5 o_counts = map to_entry (take 5 (sort_desc (object_entries o_counts)))"

text \<open>
  Times are milliseconds since the epoch, as \<^verbatim>\<open>Date\<close> holds them.
  \<^verbatim>\<open>setDate(getDate() - 30)\<close> moves the local calendar date back by 30 days at the same
  local time of day. The model takes the local offset from UTC to be the same at both
  instants, so that the step is 30 times 86400000 ms; where the offset changes in between
  (a daylight-saving change) the instant of the code differs from the model's by that
  change, an hour as a rule. The worked examples use dates that are days away from the
  boundary.
\<close>

definition msPerDay :: int where
  "msPerDay = 86400000"

definition thirtyDaysAgo :: "int \<Rightarrow> int" where
  "thirtyDaysAgo now = now - 30 * msPerDay"

text \<open>
  \<^verbatim>\<open>new Date(v)\<close> for a string or \<^verbatim>\<open>undefined\<close>. The parser of date strings is the
  platform's and is a parameter \<open>parse\<close> of the model: \<open>None\<close> is the invalid date
  (time value \<^verbatim>\<open>NaN\<close>). \<^verbatim>\<open>new Date(undefined)\<close> is the invalid date.
\<close>

definition new_Date :: "(string \<Rightarrow> int option) \<Rightarrow> string option \<Rightarrow> int option" where
  "new_Date parse v = (case v of None \<Rightarrow> None | Some s \<Rightarrow> parse s)"

text \<open>
  The predicate of \<^verbatim>\<open>data.filter\<close>: \<^verbatim>\<open>recordDate >= thirtyDaysAgo\<close> compares the time
  values and is false for \<^verbatim>\<open>NaN\<close>.
\<close>

definition is_recent :: "(string \<Rightarrow> int option) \<Rightarrow> int \<Rightarrow> submission \<Rightarrow> bool" where
  "is_recent parse now record =
     (case new_Date parse (js_or (date record) (removalDate record)) of
        None \<Rightarrow> False
      | Some recordDate \<Rightarrow> recordDate \<ge> thirtyDaysAgo now)"

text \<open>
  The effective date of a record as the specification reads it: \<^verbatim>\<open>removalDate\<close>, with
  \<^verbatim>\<open>date\<close> as its alias in legacy records (the order of \<^verbatim>\<open>exportToExcel\<close>, not the
  one of the filter above). A record has no valid date when its effective date is
  missing or is a text the parser rejects.
\<close>

definition effective_date :: "submission \<Rightarrow> string option" where
  "effective_date record = js_or (removalDate record) (date record)"

definition no_valid_date :: "(string \<Rightarrow> int option) \<Rightarrow> submission \<Rightarrow> bool" where
  "no_valid_date parse record =
     (case effective_date record of
        None \<Rightarrow> True
      | Some s \<Rightarrow> parse s = None)"

text \<open>
  \<^verbatim>\<open>data.length * 0.6\<close> is a product of IEEE 754 doubles. The literal \<^verbatim>\<open>0.6\<close> is the
  double \<open>5404319552844595 / 2\<^sup>5\<^sup>3\<close>, so the exact product of a length \<open>n\<close> with it is
  \<open>n * 5404319552844595\<close> in units of \<open>2\<^sup>-\<^sup>5\<^sup>3\<close>; the result is that number rounded to
  53 significant bits, to nearest, ties to even. Lengths are below \<open>2\<^sup>3\<^sup>2\<close>, so neither
  operand nor result leaves the normal range.
\<close>

fun bitlen :: "nat \<Rightarrow> nat" where
  "bitlen n = (if n = 0 then 0 else Suc (bitlen (n div 2)))"

declare bitlen.simps [simp del]

definition round53 :: "nat \<Rightarrow> nat" where
  "round53 p =
     (let b = bitlen p in
      if b \<le> 53 then p
      else
        let s = b - 53; q = p div 2 ^ s; r = p mod 2 ^ s; half = 2 ^ (s - 1) in
        (if r > half \<or> (r = half \<and> odd q) then q + 1 else q) * 2 ^ s)"

definition double_0_6 :: nat where
  "double_0_6 = 5404319552844595"

text \<open>\<^verbatim>\<open>n * 0.6\<close>, in units of \<open>2\<^sup>-\<^sup>5\<^sup>3\<close>.\<close>

definition times_0_6 :: "nat \<Rightarrow> nat" where
  "times_0_6 n = round53 (n * double_0_6)"

text \<open>\<^verbatim>\<open>m > n * 0.6\<close> for lengths \<open>m\<close> and \<open>n\<close>.\<close>

definition exceeds_0_6 :: "nat \<Rightarrow> nat \<Rightarrow> bool" where
  "exceeds_0_6 m n = (m * 2 ^ 53 > times_0_6 n)"

definition no_data :: entry where
  "no_data = \<lparr>name = ''No data yet'', count = Num 0\<rparr>"

definition performAIAnalysis ::
  "(string \<Rightarrow> int option) \<Rightarrow> int \<Rightarrow> submission list \<Rightarrow> analysis" where
  "performAIAnalysis parse now data =
     (if length data = 0 then
        \<lparr>topParts = [no_data],
         topAssets = [no_data],
         trends = \<lparr>trend = ''Insufficient data'', recentCount = 0, totalCount = 0\<rparr>,
         mfcStats = [no_data]\<rparr>
      else
        let partCounts = count_field partNumber data;
            assetCounts = count_field removedFrom data;
            mfcCounts = count_field mfc data;
            reasonCounts = count_field reasonRemove data;
            recentData = filter (is_recent parse now) data
        in
        \<lparr>topParts = top5 partCounts,
         topAssets = top5 assetCounts,
         trends = \<lparr>trend = (if exceeds_0_6 (length recentData) (length data)
                            then ''Increasing failure rate'' else ''Stable failure rate''),
                   recentCount = length recentData,
                   totalCount = length data\<rparr>,
         mfcStats = ranked mfcCounts\<rparr>)"

text \<open>
  The ranked lists of the returned object, by property name. \<^verbatim>\<open>reasonCounts\<close> is filled
  by the loop and read by nothing: the returned object has no property for it, and on the
  empty snapshot the function returns before the counting objects are created.
\<close>

definition ranked_lists :: "analysis \<Rightarrow> (string \<times> entry list) list" where
  "ranked_lists a =
     [(''topParts'', topParts a), (''topAssets'', topAssets a), (''mfcStats'', mfcStats a)]"

text \<open>The ranked lists that consist of the sentinel entry alone.\<close>

definition sentinel_lists :: "analysis \<Rightarrow> (string \<times> entry list) list" where
  "sentinel_lists a = filter (\<lambda>p. snd p = [no_data]) (ranked_lists a)"

subsection \<open>The formatter\<close>

text \<open>\<^verbatim>\<open>${item.count}\<close>: the text of a count.\<close>

fun count_text :: "jsval \<Rightarrow> string" where
  "count_text (Num n) = show_nat n"
| "count_text (Str s) = s"

definition no_data_available :: string where
  \<open>no_data_available = ''<em style="color: #666;">No data available</em>''\<close>

definition format_item :: "nat \<Rightarrow> entry \<Rightarrow> string" where
  \<open>format_item index item =
     ''<div style="margin: 5px 0; padding: 8px; background: ''
     @ (if index = 0 then ''#e3f2fd'' else ''#f5f5f5'')
     @ ''; border-radius: 5px; border-left: 3px solid ''
     @ (if index = 0 then ''#1976d2'' else ''#ddd'')
     @ '';">\<newline>            <strong>'' @ name item
     @ ''</strong><br>\<newline>            <small>'' @ count_text (count item)
     @ '' occurrences</small>\<newline>        </div>''\<close>

definition formatTopItems :: "entry list \<Rightarrow> string" where
  "formatTopItems items =
     (case items of
        [] \<Rightarrow> no_data_available
      | first # _ \<Rightarrow>
          if count first = Num 0 then no_data_available
          else concat (map (\<lambda>(index, item). format_item index item) (enumerate 0 items)))"

subsection \<open>A parser for the worked examples\<close>

text \<open>
  The date-only ISO 8601 form \<^verbatim>\<open>YYYY-MM-DD\<close>, which \<^verbatim>\<open>Date\<close> reads as midnight UTC of
  that day. Months are 1 to 12 and days 1 to 31; a day beyond the end of its month runs
  into the next month, as V8 reads it (\<^verbatim>\<open>2024-02-30\<close> is 1 March 2024). Every other
  text is rejected here. The parser instantiates \<open>parse\<close> in the worked examples, at
  calendar dates only; the theorems hold for every parser.
\<close>

definition days_from_civil :: "int \<Rightarrow> int \<Rightarrow> int \<Rightarrow> int" where
  "days_from_civil y m d =
     (let y' = (if m \<le> 2 then y - 1 else y);
          era = y' div 400;
          yoe = y' - era * 400;
          doy = (153 * (if m > 2 then m - 3 else m + 9) + 2) div 5 + d - 1;
          doe = yoe * 365 + yoe div 4 - yoe div 100 + doy
      in era * 146097 + doe - 719468)"

definition parseISODate :: "string \<Rightarrow> int option" where
  "parseISODate s =
     (if length s = 10 \<and> s ! 4 = CHR ''-'' \<and> s ! 7 = CHR ''-''
         \<and> list_all is_digit (take 4 s @ take 2 (drop 5 s) @ drop 8 s)
      then
        let y = int (decimal_value (take 4 s));
            m = int (decimal_value (take 2 (drop 5 s)));
            d = int (decimal_value (drop 8 s))
        in if 1 \<le> m \<and> m \<le> 12 \<and> 1 \<le> d \<and> d \<le> 31
           then Some (days_from_civil y m d * msPerDay) else None
      else None)"

subsection \<open>Records of the worked examples\<close>

definition proto_record :: submission where
  "proto_record = blank\<lparr>id_field := Some 1, mfc := Some ''__proto__'',
     partNumber := Some ''__proto__'', removedFrom := Some ''__proto__'',
     reasonRemove := Some ''Defected'', removalDate := Some ''2024-03-01''\<rparr>"

definition both_dates :: submission where
  "both_dates = blank\<lparr>id_field := Some 1, mfc := Some ''HLN01'', partNumber := Some ''MOT-001'',
     removedFrom := Some ''LR0000'', reasonRemove := Some ''Defected'',
     removalDate := Some ''2024-03-01'', date := Some ''2000-01-01''\<rparr>"

definition swapped_dates :: submission where
  "swapped_dates = blank\<lparr>id_field := Some 1, mfc := Some ''HLN01'', partNumber := Some ''MOT-001'',
     removedFrom := Some ''LR0000'', reasonRemove := Some ''Defected'',
     removalDate := Some ''soon'', date := Some ''2024-03-01''\<rparr>"

definition comma_in_mfc :: submission where
  "comma_in_mfc = blank\<lparr>id_field := Some 7, mfc := Some ''a,b'',
     removalDate := Some ''2024-03-01''\<rparr>"

definition mockData :: "submission list" where
  "mockData =
     [blank\<lparr>id_field := Some 1, mfc := Some ''HLN01'', partNumber := Some ''MOT-001'',
        removedFrom := Some ''LR0000'', reasonRemove := Some ''Defected'',
        date := Some ''2024-01-15''\<rparr>,
      blank\<lparr>id_field := Some 2, mfc := Some ''EMK01'', partNumber := Some ''PCB-445'',
        removedFrom := Some ''RB-2024-002'', reasonRemove := Some ''Scrap'',
        date := Some ''2024-01-20''\<rparr>,
      blank\<lparr>id_field := Some 3, mfc := Some ''BS01'', partNumber := Some ''MOT-001'',
        removedFrom := Some ''RB-2024-003'', reasonRemove := Some ''Defected'',
        date := Some ''2024-02-01''\<rparr>,
      blank\<lparr>id_field := Some 4, mfc := Some ''DAL01'', partNumber := Some ''SEN-220'',
        removedFrom := Some ''RB-2024-001'', reasonRemove := Some ''Required For R&D'',
        date := Some ''2024-02-10''\<rparr>,
      blank\<lparr>id_field := Some 5, mfc := Some ''NYC01'', partNumber := Some ''PCB-445'',
        removedFrom := Some ''RB-2024-004'', reasonRemove := Some ''Defected'',
        date := Some ''2024-02-15''\<rparr>]"

definition numbered_parts :: "submission list" where
  "numbered_parts =
     [blank\<lparr>id_field := Some 1, partNumber := Some ''20''\<rparr>,
      blank\<lparr>id_field := Some 2, partNumber := Some ''10''\<rparr>,
      blank\<lparr>id_field := Some 3, partNumber := Some ''MOT-001''\<rparr>]"

definition recent_record :: submission where
  "recent_record = blank\<lparr>partNumber := Some ''MOT-001'', removalDate := Some ''2024-03-01''\<rparr>"

definition old_record :: submission where
  "old_record = blank\<lparr>partNumber := Some ''MOT-001'', date := Some ''2024-01-15''\<rparr>"

definition comma_record :: submission where
  "comma_record = blank\<lparr>id_field := Some 1, mfc := Some ''HLN01'',
     removalDate := Some ''2024-03-01'', taggedBy := Some ''J. Doe'', itemType := Some ''Motor'',
     partNumber := Some ''MOT-001'', removedFrom := Some ''LR0000'',
     reasonRemove := Some ''Defected'', comments := Some ''ok, replaced''\<rparr>"

definition newline_record :: submission where
  "newline_record = blank\<lparr>id_field := Some 2, mfc := Some ''EMK01'',
     removalDate := Some ''2024-03-02'', partNumber := Some ''PCB-445'',
     comments := Some ''line one\<newline>line two''\<rparr>"

subsection \<open>Notions used in the statements\<close>

text \<open>
  \<open>precedes a b xs\<close>: \<open>b\<close> occurs in \<open>xs\<close> and \<open>a\<close> occurs before the first
  occurrence of \<open>b\<close>.
\<close>

definition precedes :: "'a \<Rightarrow> 'a \<Rightarrow> 'a list \<Rightarrow> bool" where
  "precedes a b xs = (a \<in> set (takeWhile (\<lambda>x. x \<noteq> b) xs) \<and> b \<in> set xs)"

text \<open>
  The keys of a counting object after \<^verbatim>\<open>o[k] = (o[k] || 0) + 1\<close>, as a function of the
  keys before: a new key goes to the end, and \<^verbatim>\<open>__proto__\<close> is never added.
\<close>

definition add_key :: "string list \<Rightarrow> string \<Rightarrow> string list" where
  "add_key ks k = (if k \<in> set ks \<or> k = proto_key then ks else ks @ [k])"

text \<open>
  The order in which \<^verbatim>\<open>Object.entries\<close> lists two keys \<open>a\<close> and \<open>b\<close> of a counting
  object filled from the key sequence \<open>keys\<close>: an array index comes before every key that
  is none and before every greater array index; two keys that are no array indices come
  in the order of their first occurrences.
\<close>

definition entries_order :: "string list \<Rightarrow> string \<Rightarrow> string \<Rightarrow> bool" where
  "entries_order keys a b =
     (if is_array_index a then \<not> is_array_index b \<or> decimal_value a < decimal_value b
      else \<not> is_array_index b \<and> precedes a b keys)"

text \<open>
  The number a count stands for, the sum of the counts of a counting object, and the
  counting objects all of whose counts are numbers of at least 1.
\<close>

fun count_number :: "jsval \<Rightarrow> nat" where
  "count_number (Num n) = n"
| "count_number (Str s) = 0"

definition total :: "counts \<Rightarrow> nat" where
  "total t = sum_list (map (\<lambda>e. count_number (snd e)) t)"

definition counted :: "counts \<Rightarrow> bool" where
  "counted t = list_all (\<lambda>e. case snd e of Num n \<Rightarrow> 1 \<le> n | Str s \<Rightarrow> False) t"

text \<open>A key that names no property of \<^verbatim>\<open>Object.prototype\<close>.\<close>

definition own_name :: "string \<Rightarrow> bool" where
  "own_name k = (k \<noteq> proto_key \<and> k \<notin> set inherited_functions)"

section \<open>Lemmas\<close>

subsection \<open>The fields of the returned object\<close>

lemma topParts_performAIAnalysis:
  "topParts (performAIAnalysis parse now data) =
     (if data = [] then [no_data] else top5 (count_field partNumber data))"
  by (simp add: performAIAnalysis_def Let_def)

lemma topAssets_performAIAnalysis:
  "topAssets (performAIAnalysis parse now data) =
     (if data = [] then [no_data] else top5 (count_field removedFrom data))"
  by (simp add: performAIAnalysis_def Let_def)

lemma mfcStats_performAIAnalysis:
  "mfcStats (performAIAnalysis parse now data) =
     (if data = [] then [no_data] else ranked (count_field mfc data))"
  by (simp add: performAIAnalysis_def Let_def)

lemma recentCount_performAIAnalysis:
  "recentCount (trends (performAIAnalysis parse now data)) =
     length (filter (is_recent parse now) data)"
  by (simp add: performAIAnalysis_def Let_def)

lemma totalCount_performAIAnalysis:
  "totalCount (trends (performAIAnalysis parse now data)) = length data"
  by (simp add: performAIAnalysis_def Let_def)

lemma trend_performAIAnalysis:
  "trend (trends (performAIAnalysis parse now data)) =
     (if data = [] then ''Insufficient data''
      else if exceeds_0_6 (length (filter (is_recent parse now) data)) (length data)
      then ''Increasing failure rate'' else ''Stable failure rate'')"
  by (simp add: performAIAnalysis_def Let_def)

text \<open>The definitions a concrete snapshot is evaluated with.\<close>

lemmas eval_counts = count_field_def increment_def proto_key_def inherited_functions_def native_source_def
  object_entries_def is_array_index_def is_digit_def decimal_value_def digit_value_def
  sort_desc_def compare_counts_def top5_def ranked_def to_entry_def

lemmas eval_dates = is_recent_def new_Date_def js_or_def thirtyDaysAgo_def msPerDay_def
  parseISODate_def is_digit_def decimal_value_def digit_value_def
  days_from_civil_def Let_def

subsection \<open>Order of occurrence in a list\<close>

lemma precedes_Cons:
  "precedes a b (x # xs) = (x \<noteq> b \<and> ((x = a \<and> b \<in> set xs) \<or> precedes a b xs))"
  unfolding precedes_def by (cases "x = b") auto

lemma precedes_Nil [simp]: "\<not> precedes a b []"
  by (simp add: precedes_def)

lemma precedes_distinct: "precedes a b xs \<Longrightarrow> a \<noteq> b"
  by (auto simp: precedes_def dest: set_takeWhileD)

lemma precedes_in_set: "precedes a b xs \<Longrightarrow> a \<in> set xs \<and> b \<in> set xs"
  by (auto simp: precedes_def dest: set_takeWhileD)

lemma precedes_snoc: "precedes a b xs \<Longrightarrow> precedes a b (xs @ ys)"
  by (induction xs) (auto simp: precedes_Cons)

lemma precedes_snoc_new: "a \<in> set xs \<Longrightarrow> b \<notin> set xs \<Longrightarrow> precedes a b (xs @ [b])"
  by (induction xs) (auto simp: precedes_Cons)

lemma precedes_append_right: "b \<notin> set xs \<Longrightarrow> precedes a b ys \<Longrightarrow> precedes a b (xs @ ys)"
  by (induction xs) (auto simp: precedes_Cons)

lemma precedes_append_left: "a \<in> set xs \<Longrightarrow> b \<notin> set xs \<Longrightarrow> b \<in> set ys \<Longrightarrow> precedes a b (xs @ ys)"
  by (induction xs) (auto simp: precedes_Cons)

lemma precedes_filter: "precedes a b xs \<Longrightarrow> P a \<Longrightarrow> P b \<Longrightarrow> precedes a b (filter P xs)"
  by (induction xs) (auto simp: precedes_Cons)

lemma precedes_take: "precedes a b xs \<Longrightarrow> b \<in> set (take n xs) \<Longrightarrow> precedes a b (take n xs)"
proof (induction xs arbitrary: n)
  case Nil
  then show ?case by simp
next
  case (Cons x xs)
  then show ?case by (cases n) (auto simp: precedes_Cons)
qed

lemma precedes_map_inj:
  "inj f \<Longrightarrow> precedes a b xs \<Longrightarrow> precedes (f a) (f b) (map f xs)"
  by (induction xs) (auto simp: precedes_Cons dest: injD)

lemma precedes_of_map:
  "distinct (map f xs) \<Longrightarrow> a \<in> set xs \<Longrightarrow> b \<in> set xs \<Longrightarrow>
   precedes (f a) (f b) (map f xs) \<Longrightarrow> precedes a b xs"
proof (induction xs)
  case Nil
  then show ?case by simp
next
  case (Cons x xs)
  then show ?case
    by (auto simp: precedes_Cons dest: precedes_in_set)
qed

subsection \<open>The keys and the counts of a counting object\<close>

lemma keys_increment: "map fst (increment t k) = add_key (map fst t) k"
proof (cases "map_of t k")
  case None
  then have "k \<notin> set (map fst t)"
    by (simp add: map_of_eq_None_iff)
  with None show ?thesis
    by (simp add: increment_def add_key_def)
next
  case (Some v)
  then have "k \<in> set (map fst t)"
    by (metis map_of_eq_None_iff option.distinct(1) set_map)
  moreover have "map fst (map (\<lambda>(k', v'). (k', if k' = k then next_count v else v')) t) = map fst t"
    by (induction t) auto
  ultimately show ?thesis using Some
    by (simp add: increment_def add_key_def)
qed

lemma keys_foldl_increment:
  "map fst (foldl increment t ks) = foldl add_key (map fst t) ks"
  by (induction ks arbitrary: t) (simp_all add: keys_increment)

lemma keys_count_field:
  "map fst (count_field field data) = foldl add_key [] (map (property_key \<circ> field) data)"
proof -
  have "count_field field data = foldl increment [] (map (property_key \<circ> field) data)"
    by (simp add: count_field_def foldl_map)
  then show ?thesis by (simp add: keys_foldl_increment)
qed

lemma distinct_add_key: "distinct ks \<Longrightarrow> distinct (add_key ks k)"
  by (simp add: add_key_def)

lemma distinct_foldl_add_key: "distinct acc \<Longrightarrow> distinct (foldl add_key acc ks)"
  by (induction ks arbitrary: acc) (simp_all add: distinct_add_key)

lemma distinct_keys_count_field: "distinct (map fst (count_field field data))"
  by (simp add: keys_count_field distinct_foldl_add_key)

lemma proto_not_in_foldl_add_key:
  "proto_key \<notin> set acc \<Longrightarrow> proto_key \<notin> set (foldl add_key acc ks)"
proof (induction ks arbitrary: acc)
  case Nil
  then show ?case by simp
next
  case (Cons k ks)
  from Cons.prems have "proto_key \<notin> set (add_key acc k)"
    by (auto simp: add_key_def)
  then show ?case by (simp add: Cons.IH)
qed

lemma precedes_foldl_add_key:
  assumes "a \<noteq> proto_key" "b \<noteq> proto_key" "a \<noteq> b"
    and "precedes a b acc \<or> (b \<notin> set acc \<and> b \<in> set ks \<and> (a \<in> set acc \<or> precedes a b ks))"
  shows "precedes a b (foldl add_key acc ks)"
  using assms(4)
proof (induction ks arbitrary: acc)
  case Nil
  then show ?case by simp
next
  case (Cons k ks)
  have "precedes a b (add_key acc k)
        \<or> (b \<notin> set (add_key acc k) \<and> b \<in> set ks \<and> (a \<in> set (add_key acc k) \<or> precedes a b ks))"
  proof (cases "precedes a b acc")
    case True
    then show ?thesis by (simp add: add_key_def precedes_snoc)
  next
    case False
    with Cons.prems have b: "b \<notin> set acc" "b \<in> set (k # ks)"
      and a: "a \<in> set acc \<or> precedes a b (k # ks)" by auto
    show ?thesis
    proof (cases "k = b")
      case True
      with a have "a \<in> set acc" by (auto simp: precedes_Cons)
      with b True assms(2) show ?thesis
        by (simp add: add_key_def precedes_snoc_new)
    next
      case False
      with b have "b \<in> set ks" "b \<notin> set (add_key acc k)" by (auto simp: add_key_def)
      moreover have "a \<in> set (add_key acc k) \<or> precedes a b ks"
        using a assms(1) by (auto simp: precedes_Cons add_key_def)
      ultimately show ?thesis by simp
    qed
  qed
  then show ?case by (simp add: Cons.IH)
qed

lemma precedes_keys_count_field:
  assumes "precedes a b (map (property_key \<circ> field) data)"
    and "a \<noteq> proto_key" "b \<noteq> proto_key"
  shows "precedes a b (map fst (count_field field data))"
proof -
  have "a \<noteq> b" using assms(1) by (rule precedes_distinct)
  moreover have "b \<in> set (map (property_key \<circ> field) data)"
    using assms(1) precedes_in_set by fastforce
  ultimately show ?thesis
    unfolding keys_count_field using assms
    by (intro precedes_foldl_add_key) simp_all
qed

lemma proto_not_key: "proto_key \<notin> fst ` set (count_field field data)"
proof -
  have "proto_key \<notin> set (map fst (count_field field data))"
    unfolding keys_count_field by (rule proto_not_in_foldl_add_key) simp
  then show ?thesis by simp
qed

lemma total_Nil [simp]: "total [] = 0"
  by (simp add: total_def)

lemma total_Cons [simp]: "total (e # t) = count_number (snd e) + total t"
  by (simp add: total_def)

lemma total_append [simp]: "total (t @ u) = total t + total u"
  by (simp add: total_def)

lemma counted_Nil [simp]: "counted []"
  by (simp add: counted_def)

lemma counted_Cons [simp]:
  "counted (e # t) = ((case snd e of Num n \<Rightarrow> 1 \<le> n | Str s \<Rightarrow> False) \<and> counted t)"
  by (simp add: counted_def)

lemma counted_append [simp]: "counted (t @ u) = (counted t \<and> counted u)"
  by (simp add: counted_def)

lemma counted_set: "counted t = (\<forall>e \<in> set t. \<exists>n. snd e = Num n \<and> 1 \<le> n)"
  by (induction t) (auto split: jsval.splits)

lemma update_existing:
  assumes "map_of t k = Some (Num n)" "distinct (map fst t)" "counted t"
  shows "total (map (\<lambda>(k', v'). (k', if k' = k then next_count (Num n) else v')) t) = total t + 1
       \<and> counted (map (\<lambda>(k', v'). (k', if k' = k then next_count (Num n) else v')) t)"
  using assms
proof (induction t)
  case Nil
  then show ?case by simp
next
  case (Cons e t)
  obtain k' v' where e: "e = (k', v')" by (cases e)
  show ?case
  proof (cases "k' = k")
    case True
    with Cons.prems e have v: "v' = Num n" and "k \<notin> fst ` set t" by auto
    then have "map (\<lambda>(k', v'). (k', if k' = k then next_count (Num n) else v')) t = t"
      by (intro map_idI) force
    with Cons.prems e True v show ?thesis by simp
  next
    case False
    with Cons e show ?thesis by simp
  qed
qed

lemma increment_own_name:
  assumes "own_name k" "distinct (map fst t)" "counted t"
  shows "total (increment t k) = total t + 1 \<and> counted (increment t k)"
proof (cases "map_of t k")
  case None
  with assms(1,3) show ?thesis
    by (simp add: increment_def own_name_def)
next
  case (Some v)
  then have "(k, v) \<in> set t" by (rule map_of_SomeD)
  with assms(3) obtain n where n: "v = Num n" by (auto simp: counted_set)
  with Some assms update_existing [of t k n] show ?thesis
    by (simp add: increment_def)
qed

lemma count_field_snoc:
  "count_field field (data @ [r]) = increment (count_field field data) (property_key (field r))"
  by (simp add: count_field_def)

lemma count_field_total:
  assumes "list_all (\<lambda>r. own_name (property_key (field r))) data"
  shows "total (count_field field data) = length data \<and> counted (count_field field data)"
  using assms
proof (induction data rule: rev_induct)
  case Nil
  then show ?case by (simp add: count_field_def)
next
  case (snoc r data)
  then have ih: "total (count_field field data) = length data" "counted (count_field field data)"
    and k: "own_name (property_key (field r))" by simp_all
  from increment_own_name [OF k distinct_keys_count_field ih(2)] ih(1)
  show ?case by (simp add: count_field_snoc)
qed

lemma set_foldl_add_key: "set (foldl add_key acc ks) = set acc \<union> (set ks - {proto_key})"
  by (induction ks arbitrary: acc) (auto simp: add_key_def)

lemma length_count_field:
  "length (count_field field data) = card (set (map (property_key \<circ> field) data) - {proto_key})"
proof -
  have "length (count_field field data) = length (map fst (count_field field data))" by simp
  also have "\<dots> = card (set (map fst (count_field field data)))"
    using distinct_keys_count_field by (simp only: distinct_card)
  also have "\<dots> = card (set (map (property_key \<circ> field) data) - {proto_key})"
    by (simp only: keys_count_field set_foldl_add_key) simp
  finally show ?thesis .
qed

subsection \<open>\<^verbatim>\<open>Object.entries\<close>, the sort and the ranked lists\<close>

lemma set_object_entries: "set (object_entries t) = set t"
  by (auto simp: object_entries_def)

lemma precedes_object_entries:
  assumes "precedes p q t" "\<not> is_array_index (fst p)" "\<not> is_array_index (fst q)"
  shows "precedes p q (object_entries t)"
  unfolding object_entries_def
  using assms by (intro precedes_append_right precedes_filter) auto

lemma set_insert_sorted: "set (insert_sorted x ys) = insert x (set ys)"
  by (induction ys) auto

lemma set_sort_desc: "set (sort_desc xs) = set xs"
  by (induction xs) (simp_all add: sort_desc_def set_insert_sorted)

lemma precedes_insert_sorted_other:
  "precedes p q ys \<Longrightarrow> x \<noteq> q \<Longrightarrow> precedes p q (insert_sorted x ys)"
  by (induction ys) (auto simp: precedes_Cons set_insert_sorted)

lemma precedes_insert_sorted_new:
  "q \<in> set ys \<Longrightarrow> p \<noteq> q \<Longrightarrow> \<not> compare_counts p q > 0 \<Longrightarrow> precedes p q (insert_sorted p ys)"
  by (induction ys) (auto simp: precedes_Cons set_insert_sorted)

lemma precedes_sort_desc:
  "precedes p q xs \<Longrightarrow> \<not> compare_counts p q > 0 \<Longrightarrow> precedes p q (sort_desc xs)"
proof (induction xs)
  case Nil
  then show ?case by simp
next
  case (Cons x xs)
  have pq: "p \<noteq> q" using Cons.prems(1) by (rule precedes_distinct)
  have s: "sort_desc (x # xs) = insert_sorted x (sort_desc xs)" by (simp add: sort_desc_def)
  from Cons.prems(1) have "x \<noteq> q" and "(x = p \<and> q \<in> set xs) \<or> precedes p q xs"
    by (auto simp: precedes_Cons)
  then show ?case
  proof (elim disjE conjE)
    assume "x = p" "q \<in> set xs"
    then show ?thesis
      unfolding s using pq Cons.prems(2)
      by (simp add: precedes_insert_sorted_new set_sort_desc)
  next
    assume "precedes p q xs"
    then show ?thesis
      unfolding s using \<open>x \<noteq> q\<close> Cons
      by (simp add: precedes_insert_sorted_other)
  qed
qed

lemma inj_to_entry: "inj to_entry"
  by (auto simp: inj_def to_entry_def prod_eq_iff)

lemma precedes_sorted_map:
  "sorted (map f ys) \<Longrightarrow> p \<in> set ys \<Longrightarrow> q \<in> set ys \<Longrightarrow> f p < f q \<Longrightarrow> precedes p q ys"
proof (induction ys)
  case Nil
  then show ?case by simp
next
  case (Cons y ys)
  then show ?case
    by (fastforce simp: precedes_Cons)
qed

lemma precedes_sort_key:
  fixes f :: "'a \<Rightarrow> nat"
  shows "p \<in> set xs \<Longrightarrow> q \<in> set xs \<Longrightarrow> f p < f q \<Longrightarrow> precedes p q (sort_key f xs)"
  by (rule precedes_sorted_map [where f = f]) simp_all

lemma precedes_object_entries_index:
  assumes "p \<in> set t" "q \<in> set t" "is_array_index (fst p)"
    and "\<not> is_array_index (fst q) \<or> decimal_value (fst p) < decimal_value (fst q)"
  shows "precedes p q (object_entries t)"
proof (cases "is_array_index (fst q)")
  case True
  with assms have "precedes p q
      (sort_key (\<lambda>e. decimal_value (fst e)) (filter (\<lambda>e. is_array_index (fst e)) t))"
    by (intro precedes_sort_key) auto
  then show ?thesis unfolding object_entries_def by (rule precedes_snoc)
next
  case False
  with assms show ?thesis
    unfolding object_entries_def by (intro precedes_append_left) auto
qed

lemma compare_counts_equal: "snd p = snd q \<Longrightarrow> compare_counts p q = 0"
  by (cases "snd q") (simp_all add: compare_counts_def)

lemma tie_order_sorted:
  assumes p: "p \<in> set (count_field field data)" and q: "q \<in> set (count_field field data)"
    and eq: "snd p = snd q"
    and ord: "entries_order (map (property_key \<circ> field) data) (fst p) (fst q)"
  shows "precedes p q (sort_desc (object_entries (count_field field data)))"
proof -
  let ?t = "count_field field data"
  have "precedes p q (object_entries ?t)"
  proof (cases "is_array_index (fst p)")
    case True
    with ord p q show ?thesis
      by (intro precedes_object_entries_index) (auto simp: entries_order_def)
  next
    case False
    with ord have nq: "\<not> is_array_index (fst q)"
      and pre: "precedes (fst p) (fst q) (map (property_key \<circ> field) data)"
      by (auto simp: entries_order_def split: if_splits)
    have "fst p \<noteq> proto_key" "fst q \<noteq> proto_key"
      using p q proto_not_key [of field data] by (metis imageI)+
    with pre have "precedes (fst p) (fst q) (map fst ?t)"
      by (intro precedes_keys_count_field)
    with p q have "precedes p q ?t"
      by (intro precedes_of_map [where f = fst] distinct_keys_count_field)
    with False nq show ?thesis by (intro precedes_object_entries)
  qed
  moreover have "\<not> compare_counts p q > 0"
    using compare_counts_equal [OF eq] by simp
  ultimately show ?thesis by (rule precedes_sort_desc)
qed

lemma set_ranked: "set (ranked t) = to_entry ` set t"
  by (simp add: ranked_def set_sort_desc set_object_entries)

lemma set_top5_subset: "set (top5 t) \<subseteq> to_entry ` set t"
proof -
  have "set (take 5 (sort_desc (object_entries t))) \<subseteq> set t"
    using set_take_subset [of 5 "sort_desc (object_entries t)"]
    by (simp add: set_sort_desc set_object_entries)
  then show ?thesis by (auto simp: top5_def)
qed

lemma to_entry_sel [simp]: "name (to_entry p) = fst p" "count (to_entry p) = snd p"
  by (simp_all add: to_entry_def)

lemma tie_order_ranked:
  assumes "e1 \<in> set (ranked (count_field field data))"
    and "e2 \<in> set (ranked (count_field field data))"
    and "count e1 = count e2"
    and "entries_order (map (property_key \<circ> field) data) (name e1) (name e2)"
  shows "precedes e1 e2 (ranked (count_field field data))"
proof -
  from assms(1,2) obtain p q where p: "p \<in> set (count_field field data)" "e1 = to_entry p"
    and q: "q \<in> set (count_field field data)" "e2 = to_entry q"
    by (auto simp: set_ranked)
  with assms(3,4) have "precedes p q (sort_desc (object_entries (count_field field data)))"
    by (intro tie_order_sorted) simp_all
  then show ?thesis
    unfolding ranked_def p q by (intro precedes_map_inj inj_to_entry)
qed

lemma tie_order_top5:
  assumes "e1 \<in> set (top5 (count_field field data))"
    and "e2 \<in> set (top5 (count_field field data))"
    and "count e1 = count e2"
    and "entries_order (map (property_key \<circ> field) data) (name e1) (name e2)"
  shows "precedes e1 e2 (top5 (count_field field data))"
proof -
  let ?s = "sort_desc (object_entries (count_field field data))"
  from assms(1) set_top5_subset obtain p where p: "p \<in> set (count_field field data)" "e1 = to_entry p"
    by blast
  from assms(2) obtain q where q: "q \<in> set (take 5 ?s)" "e2 = to_entry q"
    by (auto simp: top5_def)
  then have q': "q \<in> set (count_field field data)"
    using set_take_subset [of 5 ?s] by (auto simp: set_sort_desc set_object_entries)
  with p q assms(3,4) have "precedes p q ?s"
    by (intro tie_order_sorted) simp_all
  with q(1) have "precedes p q (take 5 ?s)" by (intro precedes_take)
  then show ?thesis
    unfolding top5_def p q by (intro precedes_map_inj inj_to_entry)
qed

lemma total_insert_sorted: "total (insert_sorted x ys) = count_number (snd x) + total ys"
  by (induction ys) simp_all

lemma total_sort_desc: "total (sort_desc xs) = total xs"
  by (induction xs) (simp_all add: sort_desc_def total_insert_sorted)

lemma total_insort_key: "total (insort_key f x ys) = count_number (snd x) + total ys"
  by (induction ys) simp_all

lemma total_sort_key: "total (sort_key f xs) = total xs"
  by (induction xs) (simp_all add: total_insort_key)

lemma total_filter: "total (filter P xs) + total (filter (\<lambda>x. \<not> P x) xs) = total xs"
  by (induction xs) simp_all

lemma total_object_entries: "total (object_entries t) = total t"
  by (simp add: object_entries_def total_sort_key total_filter)

lemma length_insert_sorted: "length (insert_sorted x ys) = Suc (length ys)"
  by (induction ys) simp_all

lemma length_sort_desc: "length (sort_desc xs) = length xs"
  by (induction xs) (simp_all add: sort_desc_def length_insert_sorted)

lemma length_object_entries: "length (object_entries t) = length t"
  by (simp add: object_entries_def sum_length_filter_compl)

lemma length_ranked: "length (ranked t) = length t"
  by (simp add: ranked_def length_sort_desc length_object_entries)

lemma length_top5: "length (top5 t) = min 5 (length t)"
  by (simp add: top5_def length_sort_desc length_object_entries min.commute)

lemma counted_ranked:
  "counted t \<Longrightarrow> e \<in> set (ranked t) \<Longrightarrow> \<exists>n. count e = Num n \<and> 1 \<le> n"
  by (auto simp: counted_set set_ranked to_entry_def)

lemma counted_top5:
  "counted t \<Longrightarrow> e \<in> set (top5 t) \<Longrightarrow> \<exists>n. count e = Num n \<and> 1 \<le> n"
proof -
  assume c: "counted t" and "e \<in> set (top5 t)"
  with set_top5_subset [of t] obtain p where "p \<in> set t" "e = to_entry p" by blast
  with c show ?thesis by (auto simp: counted_set)
qed

lemma sum_ranked: "sum_list (map (\<lambda>e. count_number (count e)) (ranked t)) = total t"
proof -
  have "sum_list (map (\<lambda>e. count_number (count e)) (ranked t))
      = total (sort_desc (object_entries t))"
    by (simp add: ranked_def total_def comp_def)
  then show ?thesis by (simp add: total_sort_desc total_object_entries)
qed

subsection \<open>The double product \<^verbatim>\<open>n * 0.6\<close>\<close>

lemma bitlen_0 [simp]: "bitlen 0 = 0"
  by (simp add: bitlen.simps)

lemma bitlen_pos: "n \<noteq> 0 \<Longrightarrow> bitlen n = Suc (bitlen (n div 2))"
  by (simp add: bitlen.simps [of n])

lemma bitlen_upper: "n < 2 ^ bitlen n"
proof (induction n rule: bitlen.induct)
  case (1 n)
  show ?case
  proof (cases "n = 0")
    case True
    then show ?thesis by simp
  next
    case False
    with 1 have "n div 2 < 2 ^ bitlen (n div 2)" by simp
    then have "n < 2 * 2 ^ bitlen (n div 2)" by linarith
    with False show ?thesis by (simp add: bitlen_pos)
  qed
qed

lemma bitlen_lower: "n \<noteq> 0 \<Longrightarrow> 2 ^ bitlen n \<le> 2 * n"
proof (induction n rule: bitlen.induct)
  case (1 n)
  show ?case
  proof (cases "n div 2 = 0")
    case True
    with 1(2) have "n = 1" by linarith
    then show ?thesis by (simp add: bitlen_pos)
  next
    case False
    with 1 have "2 ^ bitlen (n div 2) \<le> 2 * (n div 2)" by simp
    then have "2 * 2 ^ bitlen (n div 2) \<le> 2 * n" by linarith
    with 1(2) show ?thesis by (simp add: bitlen_pos)
  qed
qed

lemma bitlen_le: "n < 2 ^ k \<Longrightarrow> bitlen n \<le> k"
proof (cases "n = 0")
  case True
  then show ?thesis by simp
next
  case False
  assume "n < 2 ^ k"
  with bitlen_lower [OF False] have "(2::nat) ^ bitlen n < 2 ^ Suc k" by simp
  then have "bitlen n < Suc k" by (rule power_less_imp_less_exp [rotated]) simp
  then show ?thesis by simp
qed

lemma bitlen_gt: "2 ^ k \<le> n \<Longrightarrow> k < bitlen n"
proof -
  assume "2 ^ k \<le> n"
  with bitlen_upper [of n] have "(2::nat) ^ k < 2 ^ bitlen n" by linarith
  then show ?thesis by (rule power_less_imp_less_exp [rotated]) simp
qed

lemma round53_unfold:
  assumes "53 < bitlen p" "s = bitlen p - 53" "h = 2 ^ (s - 1)" "d = 2 ^ s"
  shows "round53 p =
    (if p mod d > h \<or> (p mod d = h \<and> odd (p div d)) then p div d + 1 else p div d) * d"
  using assms by (simp add: round53_def Let_def)

lemma round53_close:
  assumes "p < 2 ^ 85"
  shows "round53 p \<le> p + 2 ^ 31 \<and> p \<le> round53 p + 2 ^ 31"
proof (cases "bitlen p \<le> 53")
  case True
  then show ?thesis by (simp add: round53_def)
next
  case False
  define s where "s = bitlen p - 53"
  define h :: nat where "h = 2 ^ (s - 1)"
  define q where "q = p div 2 ^ s"
  define r where "r = p mod 2 ^ s"
  from False have s1: "1 \<le> s" by (simp add: s_def)
  from assms have "bitlen p \<le> 85" by (rule bitlen_le)
  then have "s - 1 \<le> 31" by (simp add: s_def)
  then have "(2::nat) ^ (s - 1) \<le> 2 ^ 31" by (rule power_increasing) simp
  then have h31: "h \<le> 2 ^ 31" by (simp add: h_def)
  from s1 have "s = Suc (s - 1)" by simp
  then have "(2::nat) ^ s = 2 * 2 ^ (s - 1)" by (metis power_Suc)
  then have two: "(2::nat) ^ s = 2 * h" by (simp add: h_def)
  have p: "p = q * 2 ^ s + r"
    using div_mult_mod_eq [of p "2 ^ s"] by (simp add: q_def r_def)
  have r: "r < 2 * h" unfolding r_def two [symmetric] by simp
  have R: "round53 p = (if r > h \<or> (r = h \<and> odd q) then q + 1 else q) * 2 ^ s"
    unfolding q_def r_def using False by (intro round53_unfold) (simp_all add: s_def h_def)
  show ?thesis
  proof (cases "r > h \<or> (r = h \<and> odd q)")
    case True
    then have "round53 p = q * 2 ^ s + 2 * h" by (simp add: R two algebra_simps)
    with p r True h31 show ?thesis by linarith
  next
    case False
    then have "round53 p = q * 2 ^ s" by (simp add: R)
    with p r False h31 show ?thesis by linarith
  qed
qed

lemma round53_tie:
  assumes "0 < k" "k < 2 ^ 30"
  shows "round53 (3 * k * 2 ^ 53 - k) = 3 * k * 2 ^ 53"
proof -
  define p where "p = 3 * k * 2 ^ 53 - k"
  define s where "s = bitlen p - 53"
  define h :: nat where "h = 2 ^ (s - 1)"
  have pk: "p + k = 3 * k * 2 ^ 53" by (simp add: p_def)
  from assms pk have "2 ^ 53 \<le> p" by simp
  then have b53: "53 < bitlen p" by (rule bitlen_gt)
  then have s1: "1 \<le> s" by (simp add: s_def)
  from assms pk have "p < 2 ^ 85" by simp
  then have "bitlen p \<le> 85" by (rule bitlen_le)
  then have s53: "s \<le> 53" by (simp add: s_def)
  from s1 have "s = Suc (s - 1)" by simp
  then have "(2::nat) ^ s = 2 * 2 ^ (s - 1)" by (metis power_Suc)
  then have two: "(2::nat) ^ s = 2 * h" by (simp add: h_def)
  from b53 have "bitlen p = s + 53" by (simp add: s_def)
  with bitlen_upper [of p] have "p < 2 ^ s * 2 ^ 53" by (simp add: power_add)
  with pk assms(1) have kh: "k < h" unfolding two by simp
  define w :: nat where "w = 2 ^ (53 - s)"
  have "(2::nat) ^ 53 = 2 ^ (53 - s) * 2 ^ s"
    using s53 by (simp add: power_add [symmetric])
  then have w: "(2::nat) ^ 53 = w * (2 * h)" by (simp add: w_def two)
  have "0 < w" by (simp add: w_def)
  with assms(1) have "0 < 3 * k * w" by simp
  then obtain q0 where q0: "3 * k * w = Suc q0" by (cases "3 * k * w") auto
  have "p + k = 3 * k * w * (2 * h)" using pk w by (simp add: mult.assoc)
  then have "p + k = q0 * (2 * h) + 2 * h" by (simp add: q0)
  with kh have p': "p = q0 * (2 * h) + (2 * h - k)" by linarith
  have rlt: "2 * h - k < 2 * h" using kh assms(1) by linarith
  have q: "p div (2 * h) = q0" unfolding p' using rlt by simp
  have r: "p mod (2 * h) = 2 * h - k" unfolding p' using rlt by simp
  have "round53 p =
      (if p mod (2 * h) > h \<or> (p mod (2 * h) = h \<and> odd (p div (2 * h)))
       then p div (2 * h) + 1 else p div (2 * h)) * (2 * h)"
    using b53 s_def h_def two [symmetric] by (rule round53_unfold)
  then have "round53 p =
      (if 2 * h - k > h \<or> (2 * h - k = h \<and> odd q0) then q0 + 1 else q0) * (2 * h)"
    by (simp only: q r)
  also have "\<dots> = (q0 + 1) * (2 * h)"
  proof -
    from kh have "h < 2 * h - k" by linarith
    then show ?thesis by simp
  qed
  also have "\<dots> = 3 * k * w * (2 * h)" by (simp add: q0)
  also have "\<dots> = 3 * k * 2 ^ 53" using w by (simp add: mult.assoc)
  finally show ?thesis by (simp add: p_def)
qed

lemma five_times_double_0_6: "5 * double_0_6 + 1 = 3 * 2 ^ 53"
  by (simp add: double_0_6_def)

lemma exceeds_0_6_iff:
  assumes "n < 2 ^ 32"
  shows "exceeds_0_6 m n \<longleftrightarrow> 3 * n < 5 * m"
proof -
  define p where "p = n * double_0_6"
  have p5: "5 * p + n = 3 * n * 2 ^ 53"
    using five_times_double_0_6 by (simp add: p_def algebra_simps)
  from assms p5 have "p < 2 ^ 85" by simp
  then have close: "round53 p \<le> p + 2 ^ 31" "p \<le> round53 p + 2 ^ 31"
    using round53_close by blast+
  have ex: "exceeds_0_6 m n \<longleftrightarrow> round53 p < m * 2 ^ 53"
    by (simp add: exceeds_0_6_def times_0_6_def p_def)
  consider "3 * n < 5 * m" | "5 * m < 3 * n" | "5 * m = 3 * n" by linarith
  then show ?thesis
  proof cases
    case 1
    with p5 close assms have "round53 p < m * 2 ^ 53" by simp
    with 1 ex show ?thesis by simp
  next
    case 2
    with p5 close assms have "\<not> round53 p < m * 2 ^ 53" by simp
    with 2 ex show ?thesis by simp
  next
    case 3
    then have "5 dvd n" by presburger
    then obtain k where k: "n = 5 * k" by (auto simp: dvd_def)
    with 3 have m: "m = 3 * k" by simp
    have "round53 p = m * 2 ^ 53"
    proof (cases "k = 0")
      case True
      with k m show ?thesis by (simp add: p_def round53_def)
    next
      case False
      from k assms have "k < 2 ^ 30" by simp
      with False have "round53 (3 * k * 2 ^ 53 - k) = 3 * k * 2 ^ 53"
        by (intro round53_tie) simp_all
      moreover from p5 k have "p = 3 * k * 2 ^ 53 - k" by simp
      ultimately show ?thesis using m by simp
    qed
    with 3 ex show ?thesis by simp
  qed
qed

lemma real_threshold: "(real n * 0.6 < real m) = (3 * n < 5 * m)"
proof -
  have "(real n * 0.6 < real m) = (real (3 * n) < real (5 * m))"
    by (simp add: field_simps)
  then show ?thesis by (simp only: of_nat_less_iff)
qed

subsection \<open>\<^verbatim>\<open>join\<close> and \<^verbatim>\<open>split\<close>\<close>

lemma split_no_separator: "c \<notin> set x \<Longrightarrow> split c x = [x]"
  by (induction x) auto

lemma split_append_separator: "c \<notin> set x \<Longrightarrow> split c (x @ c # rest) = x # split c rest"
  by (induction x) auto

lemma split_join:
  "ls \<noteq> [] \<Longrightarrow> \<forall>l \<in> set ls. c \<notin> set l \<Longrightarrow> split c (join [c] ls) = ls"
proof (induction "[c]" ls rule: join.induct)
  case 1
  then show ?case by simp
next
  case (2 x)
  then show ?case by (simp add: split_no_separator)
next
  case (3 x y ys)
  then show ?case by (simp add: split_append_separator)
qed

lemma set_join: "set (join sep xs) \<subseteq> set sep \<union> \<Union> (set ` set xs)"
  by (induction sep xs rule: join.induct) auto

lemma sublist_join: "x \<in> set xs \<Longrightarrow> sublist x (join sep xs)"
proof (induction sep xs rule: join.induct)
  case (1 sep)
  then show ?case by simp
next
  case (2 sep y)
  then show ?case by simp
next
  case (3 sep y z zs)
  show ?case
  proof (cases "x = y")
    case True
    then show ?thesis by simp
  next
    case False
    with 3 have "sublist x (join sep (z # zs))" by simp
    then obtain ps ss where "join sep (z # zs) = ps @ x @ ss"
      by (auto simp: sublist_def)
    then have "join sep (y # z # zs) = (y @ sep @ ps) @ x @ ss" by simp
    then show ?thesis unfolding sublist_def by blast
  qed
qed

lemma sublist_transitive: "sublist xs ys \<Longrightarrow> sublist ys zs \<Longrightarrow> sublist xs zs"
  by (rule sublist_order.order_trans)

lemma no_comma_replace_commas: "CHR '','' \<notin> set (replace_commas s)"
  by (auto simp: replace_commas_def)

lemma header_no_newline: "CHR ''\<newline>'' \<notin> set (join '','' headers)"
  by (simp add: headers_def)

lemma row_line_no_newline:
  assumes "\<forall>cell \<in> set (row_cells row). CHR ''\<newline>'' \<notin> set cell"
  shows "CHR ''\<newline>'' \<notin> set (row_line row)"
  using assms set_join [of "'',''" "row_cells row"] by (auto simp: row_line_def)

lemma split_export:
  assumes "\<forall>row \<in> set data. \<forall>cell \<in> set (row_cells row). CHR ''\<newline>'' \<notin> set cell"
  shows "split CHR ''\<newline>'' (exportToExcel data) = csv_lines data"
proof -
  have "\<forall>l \<in> set (csv_lines data). CHR ''\<newline>'' \<notin> set l"
    using assms header_no_newline row_line_no_newline by (auto simp: csv_lines_def)
  then show ?thesis
    unfolding exportToExcel_def by (intro split_join) (simp_all add: csv_lines_def)
qed

lemma row_line_in_export: "row \<in> set data \<Longrightarrow> sublist (row_line row) (exportToExcel data)"
  unfolding exportToExcel_def by (intro sublist_join) (simp add: csv_lines_def)

lemma split_join_nth:
  "k < length cs \<Longrightarrow> \<forall>j \<le> k. c \<notin> set (cs ! j) \<Longrightarrow> split c (join [c] cs) ! k = cs ! k"
proof (induction "[c]" cs arbitrary: k rule: join.induct)
  case 1
  then show ?case by simp
next
  case (2 x)
  then show ?case by (simp add: split_no_separator)
next
  case (3 x y ys)
  from "3.prems"(2) have x: "c \<notin> set x" by auto
  show ?case
  proof (cases k)
    case 0
    with x show ?thesis by (simp add: split_append_separator)
  next
    case (Suc k')
    with "3.prems" have "k' < length (y # ys)" and "\<forall>j \<le> k'. c \<notin> set ((y # ys) ! j)"
      by auto
    then have "split c (join [c] (y # ys)) ! k' = (y # ys) ! k'" by (rule "3.hyps")
    with x Suc show ?thesis by (simp add: split_append_separator)
  qed
qed

section \<open>The claims\<close>

subsection \<open>C1: the empty snapshot\<close>

text \<open>
  C1, as stated, asks for a sentinel entry for each of four dimensions, the reason among
  them. On the empty snapshot the returned object holds exactly three ranked lists that
  are the sentinel entry: \<^verbatim>\<open>topParts\<close>, \<^verbatim>\<open>topAssets\<close> and \<^verbatim>\<open>mfcStats\<close>. There is no
  fourth one for the reason.
\<close>

theorem empty_snapshot_three_sentinels:
  "map fst (sentinel_lists (performAIAnalysis parseISODate 0 [])) =
     [''topParts'', ''topAssets'', ''mfcStats'']
   \<and> length (sentinel_lists (performAIAnalysis parseISODate 0 [])) \<noteq> 4"
  by (simp add: performAIAnalysis_def sentinel_lists_def ranked_lists_def)

text \<open>
  C1, amended: for the empty snapshot \<^verbatim>\<open>performAIAnalysis\<close> returns exactly the object
  with the sentinel entry \<^verbatim>\<open>{name: "No data yet", count: 0}\<close> as the only entry of each of
  the three returned dimensions (part number, asset, MFC) and the trend sentinel
  \<^verbatim>\<open>{trend: "Insufficient data", recentCount: 0, totalCount: 0}\<close>; these three are all
  the ranked lists of the result.
\<close>

theorem empty_snapshot_sentinels:
  "performAIAnalysis parse now [] =
     \<lparr>topParts = [\<lparr>name = ''No data yet'', count = Num 0\<rparr>],
      topAssets = [\<lparr>name = ''No data yet'', count = Num 0\<rparr>],
      trends = \<lparr>trend = ''Insufficient data'', recentCount = 0, totalCount = 0\<rparr>,
      mfcStats = [\<lparr>name = ''No data yet'', count = Num 0\<rparr>]\<rparr>
   \<and> map fst (ranked_lists (performAIAnalysis parse now [])) =
       [''topParts'', ''topAssets'', ''mfcStats'']"
  by (simp add: performAIAnalysis_def no_data_def ranked_lists_def)

subsection \<open>C2: which date decides recency\<close>

lemma is_recent_iff:
  "is_recent parse now record \<longleftrightarrow>
     (\<exists>s t. js_or (date record) (removalDate record) = Some s \<and> parse s = Some t
        \<and> now - 30 * 86400000 \<le> t)"
  by (auto simp: is_recent_def new_Date_def thirtyDaysAgo_def msPerDay_def split: option.splits)

text \<open>
  C2 says that \<^verbatim>\<open>removalDate\<close> decides recency when both date properties are present.
  The filter reads \<^verbatim>\<open>record.date || record.removalDate\<close>: for a record whose
  \<^verbatim>\<open>removalDate\<close> (1 March 2024) lies inside the 30 days before the evaluation time
  (5 March 2024, noon UTC) and whose \<^verbatim>\<open>date\<close> is 1 January 2000, the record is not
  counted as recent.
\<close>

theorem date_alias_wins_over_removalDate:
  "removalDate both_dates = Some ''2024-03-01''
   \<and> parseISODate ''2024-03-01'' = Some 1709251200000
   \<and> thirtyDaysAgo 1709640000000 \<le> 1709251200000
   \<and> recentCount (trends (performAIAnalysis parseISODate 1709640000000 [both_dates])) = 0"
  by (simp add: recentCount_performAIAnalysis both_dates_def blank_def eval_dates)

subsection \<open>C3: the threshold of the trend\<close>

text \<open>
  C3: for a snapshot that is not empty the trend is \<^verbatim>\<open>Increasing failure rate\<close> when
  \<^verbatim>\<open>recentCount\<close> is greater than 0.6 times \<^verbatim>\<open>totalCount\<close>, in exact arithmetic, and
  \<^verbatim>\<open>Stable failure rate\<close> otherwise: the rounding of the double product never changes
  the comparison. The length of a JavaScript array is below \<open>2\<^sup>3\<^sup>2\<close>.
\<close>

theorem trend_threshold:
  assumes "data \<noteq> []" and "length data < 2 ^ 32"
  shows "trend (trends (performAIAnalysis parse now data)) =
     (if real (recentCount (trends (performAIAnalysis parse now data)))
           > real (totalCount (trends (performAIAnalysis parse now data))) * 0.6
      then ''Increasing failure rate'' else ''Stable failure rate'')"
  using assms
  by (simp add: trend_performAIAnalysis recentCount_performAIAnalysis
      totalCount_performAIAnalysis exceeds_0_6_iff real_threshold)

text \<open>
  C3 at the boundary: of ten records, six recent ones give \<^verbatim>\<open>Stable failure rate\<close> and
  seven give \<^verbatim>\<open>Increasing failure rate\<close>.
\<close>

theorem trend_threshold_witness:
  "recentCount (trends (performAIAnalysis parseISODate 1709640000000
      (replicate 6 recent_record @ replicate 4 old_record))) = 6
   \<and> totalCount (trends (performAIAnalysis parseISODate 1709640000000
      (replicate 6 recent_record @ replicate 4 old_record))) = 10
   \<and> trend (trends (performAIAnalysis parseISODate 1709640000000
      (replicate 6 recent_record @ replicate 4 old_record))) = ''Stable failure rate''
   \<and> recentCount (trends (performAIAnalysis parseISODate 1709640000000
      (replicate 7 recent_record @ replicate 3 old_record))) = 7
   \<and> totalCount (trends (performAIAnalysis parseISODate 1709640000000
      (replicate 7 recent_record @ replicate 3 old_record))) = 10
   \<and> trend (trends (performAIAnalysis parseISODate 1709640000000
      (replicate 7 recent_record @ replicate 3 old_record))) = ''Increasing failure rate''"
proof -
  have r: "is_recent parseISODate 1709640000000 recent_record"
    by (simp add: recent_record_def blank_def eval_dates)
  have o: "\<not> is_recent parseISODate 1709640000000 old_record"
    by (simp add: old_record_def blank_def eval_dates)
  have six: "recentCount (trends (performAIAnalysis parseISODate 1709640000000
      (replicate 6 recent_record @ replicate 4 old_record))) = 6"
    by (simp add: recentCount_performAIAnalysis r o)
  have seven: "recentCount (trends (performAIAnalysis parseISODate 1709640000000
      (replicate 7 recent_record @ replicate 3 old_record))) = 7"
    by (simp add: recentCount_performAIAnalysis r o)
  have ten: "totalCount (trends (performAIAnalysis parseISODate 1709640000000
      (replicate 6 recent_record @ replicate 4 old_record))) = 10"
    "totalCount (trends (performAIAnalysis parseISODate 1709640000000
      (replicate 7 recent_record @ replicate 3 old_record))) = 10"
    by (simp_all add: totalCount_performAIAnalysis)
  have ne: "replicate 6 recent_record @ replicate 4 old_record \<noteq> []"
    "replicate 7 recent_record @ replicate 3 old_record \<noteq> []"
    by simp_all
  have len: "length (replicate 6 recent_record @ replicate 4 old_record) < 2 ^ 32"
    "length (replicate 7 recent_record @ replicate 3 old_record) < 2 ^ 32"
    by simp_all
  show ?thesis
    using trend_threshold [OF ne(1) len(1), of parseISODate 1709640000000]
      trend_threshold [OF ne(2) len(2), of parseISODate 1709640000000]
    by (simp add: six seven ten)
qed

subsection \<open>C4: the order of equal counts\<close>

text \<open>
  C4, as stated, fails on keys that are array indices. In a snapshot whose part numbers
  are \<^verbatim>\<open>20\<close>, \<^verbatim>\<open>10\<close> and \<^verbatim>\<open>MOT-001\<close>, in this order, every count is 1, and
  \<^verbatim>\<open>topParts\<close> lists \<^verbatim>\<open>10\<close> before \<^verbatim>\<open>20\<close>.
\<close>

theorem index_keys_rank_first:
  "map (property_key \<circ> partNumber) numbered_parts = [''20'', ''10'', ''MOT-001'']
   \<and> topParts (performAIAnalysis parseISODate 1709640000000 numbered_parts) =
       [\<lparr>name = ''10'', count = Num 1\<rparr>, \<lparr>name = ''20'', count = Num 1\<rparr>,
        \<lparr>name = ''MOT-001'', count = Num 1\<rparr>]
   \<and> precedes ''20'' ''10'' (map (property_key \<circ> partNumber) numbered_parts)
   \<and> \<not> precedes \<lparr>name = ''20'', count = Num 1\<rparr> \<lparr>name = ''10'', count = Num 1\<rparr>
         (topParts (performAIAnalysis parseISODate 1709640000000 numbered_parts))"
  by (simp add: topParts_performAIAnalysis numbered_parts_def blank_def eval_counts precedes_def)

text \<open>
  C4, amended: in each of the three ranked lists, two entries of equal count stand in the
  order in which \<^verbatim>\<open>Object.entries\<close> lists their keys: two keys that are no array indices
  in the order of their first occurrences in the snapshot, an array index before a key
  that is none, and two array indices in ascending numeric order. The statement is for
  snapshots in which no key of the field names a function inherited from
  \<^verbatim>\<open>Object.prototype\<close>, since a count that is a string makes the comparator inconsistent.
\<close>

theorem ties_follow_entries_order:
  assumes "(field, out) \<in> {(partNumber, topParts), (removedFrom, topAssets), (mfc, mfcStats)}"
    and "list_all (\<lambda>record. property_key (field record) \<notin> set inherited_functions) data"
    and "e1 \<in> set (out (performAIAnalysis parse now data))"
    and "e2 \<in> set (out (performAIAnalysis parse now data))"
    and "count e1 = count e2"
    and "entries_order (map (property_key \<circ> field) data) (name e1) (name e2)"
  shows "precedes e1 e2 (out (performAIAnalysis parse now data))"
proof (cases "data = []")
  case True
  with assms(1,3,4,6) show ?thesis
    by (auto simp: topParts_performAIAnalysis topAssets_performAIAnalysis
        mfcStats_performAIAnalysis entries_order_def no_data_def is_array_index_def is_digit_def)
next
  case False
  from assms(1) consider
      "field = partNumber" "out = topParts"
    | "field = removedFrom" "out = topAssets"
    | "field = mfc" "out = mfcStats"
    by auto
  then show ?thesis
  proof cases
    case 1
    with assms False show ?thesis
      by (simp add: topParts_performAIAnalysis tie_order_top5)
  next
    case 2
    with assms False show ?thesis
      by (simp add: topAssets_performAIAnalysis tie_order_top5)
  next
    case 3
    with assms False show ?thesis
      by (simp add: mfcStats_performAIAnalysis tie_order_ranked)
  qed
qed

text \<open>
  C4, amended, at the mock records of \<^verbatim>\<open>loadStoredData\<close>, where \<^verbatim>\<open>MOT-001\<close> and
  \<^verbatim>\<open>PCB-445\<close> both occur twice and \<^verbatim>\<open>MOT-001\<close> occurs first.
\<close>

theorem ties_follow_entries_order_witness:
  "topParts (performAIAnalysis parseISODate 1709640000000 mockData) =
     [\<lparr>name = ''MOT-001'', count = Num 2\<rparr>, \<lparr>name = ''PCB-445'', count = Num 2\<rparr>,
      \<lparr>name = ''SEN-220'', count = Num 1\<rparr>]
   \<and> precedes \<lparr>name = ''MOT-001'', count = Num 2\<rparr> \<lparr>name = ''PCB-445'', count = Num 2\<rparr>
       (topParts (performAIAnalysis parseISODate 1709640000000 mockData))"
proof -
  have top: "topParts (performAIAnalysis parseISODate 1709640000000 mockData) =
     [\<lparr>name = ''MOT-001'', count = Num 2\<rparr>, \<lparr>name = ''PCB-445'', count = Num 2\<rparr>,
      \<lparr>name = ''SEN-220'', count = Num 1\<rparr>]"
    by (simp add: topParts_performAIAnalysis mockData_def blank_def eval_counts)
  have "precedes \<lparr>name = ''MOT-001'', count = Num 2\<rparr> \<lparr>name = ''PCB-445'', count = Num 2\<rparr>
       (topParts (performAIAnalysis parseISODate 1709640000000 mockData))"
  proof (rule ties_follow_entries_order [where field = partNumber and out = topParts])
    show "(partNumber, topParts) \<in> {(partNumber, topParts), (removedFrom, topAssets), (mfc, mfcStats)}"
      by simp
    show "list_all (\<lambda>record. property_key (partNumber record) \<notin> set inherited_functions) mockData"
      by (simp add: mockData_def blank_def inherited_functions_def)
    show "\<lparr>name = ''MOT-001'', count = Num 2\<rparr>
        \<in> set (topParts (performAIAnalysis parseISODate 1709640000000 mockData))"
      by (simp add: top)
    show "\<lparr>name = ''PCB-445'', count = Num 2\<rparr>
        \<in> set (topParts (performAIAnalysis parseISODate 1709640000000 mockData))"
      by (simp add: top)
    show "count \<lparr>name = ''MOT-001'', count = Num 2\<rparr> = count \<lparr>name = ''PCB-445'', count = Num 2\<rparr>"
      by simp
    show "entries_order (map (property_key \<circ> partNumber) mockData)
        (name \<lparr>name = ''MOT-001'', count = Num 2\<rparr>) (name \<lparr>name = ''PCB-445'', count = Num 2\<rparr>)"
      by (simp add: entries_order_def mockData_def blank_def is_array_index_def is_digit_def
          precedes_def)
  qed
  with top show ?thesis by simp
qed

subsection \<open>C5: records without a valid date\<close>

lemma unparsed_dates_not_recent:
  assumes "\<forall>s. date r = Some s \<longrightarrow> parse s = None"
    and "\<forall>s. removalDate r = Some s \<longrightarrow> parse s = None"
  shows "\<not> is_recent parse now r"
  using assms
  by (cases "date r"; cases "removalDate r")
     (auto simp: is_recent_def new_Date_def js_or_def split: option.splits)

text \<open>
  A record none of whose two date properties parses adds nothing to \<^verbatim>\<open>recentCount\<close>
  and one to \<^verbatim>\<open>totalCount\<close>, wherever it stands in the snapshot and whichever of the two
  properties is read first.
\<close>

lemma unparsed_dates_not_recent_but_counted:
  assumes "\<forall>s. date r = Some s \<longrightarrow> parse s = None"
    and "\<forall>s. removalDate r = Some s \<longrightarrow> parse s = None"
  shows "recentCount (trends (performAIAnalysis parse now (xs @ r # ys)))
           = length (filter (is_recent parse now) (xs @ ys))
       \<and> totalCount (trends (performAIAnalysis parse now (xs @ r # ys))) = Suc (length (xs @ ys))"
  using unparsed_dates_not_recent [OF assms, of now]
  by (simp add: recentCount_performAIAnalysis totalCount_performAIAnalysis)

text \<open>
  C5 at the snapshot of one record whose \<^verbatim>\<open>removalDate\<close> is the text \<^verbatim>\<open>soon\<close> and whose
  \<^verbatim>\<open>date\<close> is 1 March 2024, four days before the evaluation time: the effective date of
  the record does not parse, and the record is counted as recent, because the filter reads
  \<^verbatim>\<open>record.date\<close> first.
\<close>

theorem unparsable_removalDate_counted_recent:
  "effective_date swapped_dates = Some ''soon''
   \<and> parseISODate ''soon'' = None
   \<and> no_valid_date parseISODate swapped_dates
   \<and> recentCount (trends (performAIAnalysis parseISODate 1709640000000 [swapped_dates])) = 1
   \<and> totalCount (trends (performAIAnalysis parseISODate 1709640000000 [swapped_dates])) = 1"
  by (simp add: recentCount_performAIAnalysis totalCount_performAIAnalysis no_valid_date_def
      effective_date_def swapped_dates_def blank_def eval_dates)

subsection \<open>C6, C7, C10: a key that names a property of \<^verbatim>\<open>Object.prototype\<close>\<close>

text \<open>
  C6 at the snapshot of one record whose MFC is \<^verbatim>\<open>__proto__\<close>: the counting object gets
  no own property, the MFC breakdown is empty and its counts sum to 0, while the snapshot
  holds one record.
\<close>

theorem proto_key_not_counted:
  "count_field mfc [proto_record] = []
   \<and> mfcStats (performAIAnalysis parseISODate 1709640000000 [proto_record]) = []
   \<and> totalCount (trends (performAIAnalysis parseISODate 1709640000000 [proto_record])) = 1"
  by (simp add: mfcStats_performAIAnalysis totalCount_performAIAnalysis proto_record_def
      blank_def eval_counts)

text \<open>
  When every MFC key names no property of \<^verbatim>\<open>Object.prototype\<close>, the counts of the MFC
  breakdown are numbers and sum to the number of records.
\<close>

lemma mfc_counts_sum_to_snapshot_size:
  assumes "list_all (\<lambda>r. own_name (property_key (mfc r))) data" and "data \<noteq> []"
  shows "sum_list (map (\<lambda>e. count_number (count e)) (mfcStats (performAIAnalysis parse now data)))
     = length data"
  using assms count_field_total [of mfc data]
  by (simp add: mfcStats_performAIAnalysis sum_ranked)

text \<open>
  C7 at the same snapshot: each field has one distinct key, and each of the three lists
  has no entry.
\<close>

theorem proto_key_top_lists_empty:
  "length (remdups (map (property_key \<circ> partNumber) [proto_record])) = 1
   \<and> length (topParts (performAIAnalysis parseISODate 1709640000000 [proto_record])) = 0
   \<and> length (remdups (map (property_key \<circ> removedFrom) [proto_record])) = 1
   \<and> length (topAssets (performAIAnalysis parseISODate 1709640000000 [proto_record])) = 0
   \<and> length (remdups (map (property_key \<circ> mfc) [proto_record])) = 1
   \<and> length (mfcStats (performAIAnalysis parseISODate 1709640000000 [proto_record])) = 0"
  by (simp add: topParts_performAIAnalysis topAssets_performAIAnalysis
      mfcStats_performAIAnalysis proto_record_def blank_def eval_counts)

text \<open>
  In general each list has one entry for each distinct key other than \<^verbatim>\<open>__proto__\<close>,
  cut to five for the parts and the assets.
\<close>

lemma ranked_list_lengths:
  assumes "data \<noteq> []"
  shows "length (topParts (performAIAnalysis parse now data))
           = min 5 (card (set (map (property_key \<circ> partNumber) data) - {proto_key}))"
    and "length (topAssets (performAIAnalysis parse now data))
           = min 5 (card (set (map (property_key \<circ> removedFrom) data) - {proto_key}))"
    and "length (mfcStats (performAIAnalysis parse now data))
           = card (set (map (property_key \<circ> mfc) data) - {proto_key})"
  using assms
  by (simp_all add: topParts_performAIAnalysis topAssets_performAIAnalysis
      mfcStats_performAIAnalysis length_top5 length_ranked length_count_field)

text \<open>
  C10 at the same snapshot, which is not empty: \<^verbatim>\<open>topParts\<close> is the empty list and the
  formatter takes its \<^verbatim>\<open>No data available\<close> branch.
\<close>

theorem proto_key_no_data_branch:
  "[proto_record] \<noteq> []
   \<and> topParts (performAIAnalysis parseISODate 1709640000000 [proto_record]) = []
   \<and> formatTopItems (topParts (performAIAnalysis parseISODate 1709640000000 [proto_record]))
       = no_data_available"
  by (simp add: topParts_performAIAnalysis proto_record_def blank_def eval_counts
      formatTopItems_def)

text \<open>
  When every key of the field names no property of \<^verbatim>\<open>Object.prototype\<close>, every count of
  a ranked list of a snapshot that is not empty is a number of at least 1, and the
  formatter takes its \<^verbatim>\<open>No data available\<close> branch on \<^verbatim>\<open>topParts\<close> for the empty
  snapshot only.
\<close>

lemma counts_at_least_one:
  assumes "(field, out) \<in> {(partNumber, topParts), (removedFrom, topAssets), (mfc, mfcStats)}"
    and "list_all (\<lambda>r. own_name (property_key (field r))) data" and "data \<noteq> []"
    and "e \<in> set (out (performAIAnalysis parse now data))"
  shows "\<exists>n. count e = Num n \<and> 1 \<le> n"
proof -
  have c: "counted (count_field field data)"
    using assms(2) count_field_total by blast
  from assms(1) consider "field = partNumber" "out = topParts"
    | "field = removedFrom" "out = topAssets" | "field = mfc" "out = mfcStats"
    by auto
  then show ?thesis
  proof cases
    case 1
    with assms(3,4) c show ?thesis
      using counted_top5 [of "count_field partNumber data" e]
      by (simp add: topParts_performAIAnalysis)
  next
    case 2
    with assms(3,4) c show ?thesis
      using counted_top5 [of "count_field removedFrom data" e]
      by (simp add: topAssets_performAIAnalysis)
  next
    case 3
    with assms(3,4) c show ?thesis
      using counted_ranked [of "count_field mfc data" e]
      by (simp add: mfcStats_performAIAnalysis)
  qed
qed

lemma formatTopItems_no_data:
  "formatTopItems items = no_data_available \<longleftrightarrow>
     (case items of [] \<Rightarrow> True | first # _ \<Rightarrow> count first = Num 0)"
  by (cases items) (simp_all add: formatTopItems_def no_data_available_def format_item_def)

lemma no_data_branch_iff:
  assumes "list_all (\<lambda>r. own_name (property_key (partNumber r))) data"
  shows "formatTopItems (topParts (performAIAnalysis parse now data)) = no_data_available
     \<longleftrightarrow> data = []"
proof (cases "data = []")
  case True
  then show ?thesis
    by (simp add: formatTopItems_no_data topParts_performAIAnalysis no_data_def)
next
  case False
  let ?keys = "set (map (property_key \<circ> partNumber) data)"
  from False have "?keys \<noteq> {}" by simp
  moreover from assms have "proto_key \<notin> ?keys" by (auto simp: list_all_iff own_name_def)
  ultimately have "0 < card (?keys - {proto_key})" by (simp add: card_gt_0_iff)
  with ranked_list_lengths(1) [OF False, of parse now]
  have "topParts (performAIAnalysis parse now data) \<noteq> []" by auto
  then obtain e es where es: "topParts (performAIAnalysis parse now data) = e # es"
    by (cases "topParts (performAIAnalysis parse now data)") auto
  then have "e \<in> set (topParts (performAIAnalysis parse now data))" by simp
  with assms False have "\<exists>n. count e = Num n \<and> 1 \<le> n"
    by (intro counts_at_least_one [where field = partNumber and out = topParts]) simp_all
  with es False show ?thesis by (auto simp: formatTopItems_no_data)
qed

subsection \<open>C8: commas and lines of the export\<close>

text \<open>
  C8, as stated, fails when a field holds a line break. Of three records, one with the
  comment \<^verbatim>\<open>ok, replaced\<close> and one whose comment has two lines, the export splits into
  five lines, not four.
\<close>

theorem export_newline_in_comment:
  "comments comma_record = Some ''ok, replaced''
   \<and> length [comma_record, newline_record, blank] = 3
   \<and> length (split CHR ''\<newline>'' (exportToExcel [comma_record, newline_record, blank])) = 5"
  by (simp add: exportToExcel_def csv_lines_def row_line_def row_cells_def headers_def
      or_empty_def js_or_def id_text_def show_int_def replace_commas_def
      comma_record_def newline_record_def blank_def)

text \<open>
  C8, amended. For every snapshot: in every row the Comments cell is the comment with each
  comma replaced by a semicolon, so it holds no comma, and every other text cell is the
  text of its property, unchanged; a record whose comment is \<^verbatim>\<open>ok, replaced\<close> puts
  \<^verbatim>\<open>ok; replaced\<close> into the export. For a snapshot no cell of which holds a line break:
  splitting the export at line breaks gives the header line followed by the line of each
  record, its cells joined by commas (four lines for three records).
\<close>

theorem export_escapes_comments_only:
  "((\<forall>row \<in> set data. \<forall>cell \<in> set (row_cells row). CHR ''\<newline>'' \<notin> set cell) \<longrightarrow>
      split CHR ''\<newline>'' (exportToExcel data)
        = join '','' headers # map (\<lambda>row. join '','' (row_cells row)) data
      \<and> length (split CHR ''\<newline>'' (exportToExcel data)) = 1 + length data)
    \<and> (\<forall>row \<in> set data. comments row = Some ''ok, replaced'' \<longrightarrow>
           sublist ''ok; replaced'' (exportToExcel data))
    \<and> (\<forall>row. tl (row_cells row) =
           [join_text (mfc row), join_text (js_or (removalDate row) (date row)),
            join_text (taggedBy row), join_text (itemType row), join_text (partNumber row),
            join_text (removedFrom row), join_text (serviceCallId row),
            join_text (reasonRemove row),
            map (\<lambda>c. if c = CHR '','' then CHR '';'' else c) (join_text (comments row))])
    \<and> (\<forall>row. CHR '','' \<notin> set (row_cells row ! 9))"
proof (intro conjI impI)
  show "\<forall>row. CHR '','' \<notin> set (row_cells row ! 9)"
    by (simp add: row_cells_def no_comma_replace_commas)
  show "\<forall>row \<in> set data. comments row = Some ''ok, replaced'' \<longrightarrow>
           sublist ''ok; replaced'' (exportToExcel data)"
  proof (intro ballI impI)
    fix row assume row: "row \<in> set data" and c: "comments row = Some ''ok, replaced''"
    have "row_cells row ! 9 = ''ok; replaced''"
      using c by (simp add: row_cells_def or_empty_def js_or_def replace_commas_def)
    moreover have "row_cells row ! 9 \<in> set (row_cells row)"
      by (simp add: row_cells_def)
    ultimately have "sublist ''ok; replaced'' (row_line row)"
      unfolding row_line_def using sublist_join by metis
    moreover have "sublist (row_line row) (exportToExcel data)"
      using row by (rule row_line_in_export)
    ultimately show "sublist ''ok; replaced'' (exportToExcel data)"
      by (rule sublist_transitive)
  qed
  show "\<forall>row. tl (row_cells row) =
           [join_text (mfc row), join_text (js_or (removalDate row) (date row)),
            join_text (taggedBy row), join_text (itemType row), join_text (partNumber row),
            join_text (removedFrom row), join_text (serviceCallId row),
            join_text (reasonRemove row),
            map (\<lambda>c. if c = CHR '','' then CHR '';'' else c) (join_text (comments row))]"
  proof
    fix row
    have e: "or_empty v = join_text v" for v
      by (cases v) (auto simp: or_empty_def js_or_def)
    have d: "join_text (js_or (js_or a b) (Some [])) = join_text (js_or a b)" for a b
      by (cases a; cases b) (auto simp: js_or_def)
    show "tl (row_cells row) =
           [join_text (mfc row), join_text (js_or (removalDate row) (date row)),
            join_text (taggedBy row), join_text (itemType row), join_text (partNumber row),
            join_text (removedFrom row), join_text (serviceCallId row),
            join_text (reasonRemove row),
            map (\<lambda>c. if c = CHR '','' then CHR '';'' else c) (join_text (comments row))]"
      by (simp add: row_cells_def e d replace_commas_def)
  qed
next
  assume nl: "\<forall>row \<in> set data. \<forall>cell \<in> set (row_cells row). CHR ''\<newline>'' \<notin> set cell"
  then have lines: "split CHR ''\<newline>'' (exportToExcel data) = csv_lines data"
    by (rule split_export)
  then show "split CHR ''\<newline>'' (exportToExcel data)
        = join '','' headers # map (\<lambda>row. join '','' (row_cells row)) data"
    by (simp add: csv_lines_def row_line_def [abs_def])
  show "length (split CHR ''\<newline>'' (exportToExcel data)) = 1 + length data"
    by (simp add: lines csv_lines_def)
qed

text \<open>
  C8, amended, at three records without line breaks, one of them with the comment
  \<^verbatim>\<open>ok, replaced\<close>, and at the three records above, one of which has a comment of two
  lines.
\<close>

theorem export_escapes_comments_only_witness:
  "split CHR ''\<newline>'' (exportToExcel [comma_record, both_dates, blank]) =
     [''ID,MFC,Date,Tagged By,Item Type,Part Number,Asset SN,Service Call ID,Reason,Comments'',
      ''1,HLN01,2024-03-01,J. Doe,Motor,MOT-001,LR0000,,Defected,ok; replaced'',
      ''1,HLN01,2024-03-01,,,MOT-001,LR0000,,Defected,'',
      '',,,,,,,,,'']
   \<and> length (split CHR ''\<newline>'' (exportToExcel [comma_record, both_dates, blank])) = 1 + 3
   \<and> sublist ''ok; replaced'' (exportToExcel [comma_record, both_dates, blank])
   \<and> sublist ''ok; replaced'' (exportToExcel [comma_record, newline_record, blank])"
proof -
  have cells: "row_cells comma_record =
      [''1'', ''HLN01'', ''2024-03-01'', ''J. Doe'', ''Motor'', ''MOT-001'', ''LR0000'', [],
       ''Defected'', ''ok; replaced'']"
    "row_cells both_dates =
      [''1'', ''HLN01'', ''2024-03-01'', [], [], ''MOT-001'', ''LR0000'', [], ''Defected'', []]"
    "row_cells blank = [[], [], [], [], [], [], [], [], [], []]"
    by (simp_all add: row_cells_def or_empty_def js_or_def id_text_def show_int_def
        replace_commas_def comma_record_def both_dates_def blank_def)
  have c: "comments comma_record = Some ''ok, replaced''"
    by (simp add: comma_record_def blank_def)
  have "sublist ''ok; replaced'' (exportToExcel [comma_record, newline_record, blank])"
    using export_escapes_comments_only [of "[comma_record, newline_record, blank]"] c
    by simp
  moreover have "split CHR ''\<newline>'' (exportToExcel [comma_record, both_dates, blank]) =
     [''ID,MFC,Date,Tagged By,Item Type,Part Number,Asset SN,Service Call ID,Reason,Comments'',
      ''1,HLN01,2024-03-01,J. Doe,Motor,MOT-001,LR0000,,Defected,ok; replaced'',
      ''1,HLN01,2024-03-01,,,MOT-001,LR0000,,Defected,'',
      '',,,,,,,,,'']
   \<and> length (split CHR ''\<newline>'' (exportToExcel [comma_record, both_dates, blank])) = 1 + 3
   \<and> sublist ''ok; replaced'' (exportToExcel [comma_record, both_dates, blank])"
    using export_escapes_comments_only [of "[comma_record, both_dates, blank]"] c
    by (simp add: cells headers_def)
  ultimately show ?thesis by simp
qed

subsection \<open>C9: the columns of an exported line\<close>

lemma row_cells_date_and_missing:
  "row_cells row ! 2 =
     (if truthy (removalDate row) then the (removalDate row)
      else case date row of None \<Rightarrow> [] | Some d \<Rightarrow> d)
   \<and> (id_field row = None \<longrightarrow> row_cells row ! 0 = [])
   \<and> (mfc row = None \<longrightarrow> row_cells row ! 1 = [])
   \<and> (removalDate row = None \<and> date row = None \<longrightarrow> row_cells row ! 2 = [])
   \<and> (taggedBy row = None \<longrightarrow> row_cells row ! 3 = [])
   \<and> (itemType row = None \<longrightarrow> row_cells row ! 4 = [])
   \<and> (partNumber row = None \<longrightarrow> row_cells row ! 5 = [])
   \<and> (removedFrom row = None \<longrightarrow> row_cells row ! 6 = [])
   \<and> (serviceCallId row = None \<longrightarrow> row_cells row ! 7 = [])
   \<and> (reasonRemove row = None \<longrightarrow> row_cells row ! 8 = [])
   \<and> (comments row = None \<longrightarrow> row_cells row ! 9 = [])"
  by (cases "removalDate row"; cases "date row")
     (simp_all add: row_cells_def or_empty_def js_or_def id_text_def replace_commas_def)

text \<open>
  C9, as stated, fails on the line of a record whose MFC holds a comma: the exporter
  escapes commas in comments only, so the columns of the line shift. For the record with
  MFC \<^verbatim>\<open>a,b\<close> and \<^verbatim>\<open>removalDate\<close> 1 March 2024, the third column of its line, under the
  header \<^verbatim>\<open>Date\<close>, is \<^verbatim>\<open>b\<close>.
\<close>

theorem comma_in_mfc_shifts_date_column:
  "removalDate comma_in_mfc = Some ''2024-03-01''
   \<and> split CHR ''\<newline>'' (exportToExcel [comma_in_mfc]) ! 1 = ''7,a,b,2024-03-01,,,,,,,''
   \<and> split CHR '','' (split CHR ''\<newline>'' (exportToExcel [comma_in_mfc]) ! 1) ! 2 = ''b''"
  by (simp add: exportToExcel_def csv_lines_def row_line_def row_cells_def headers_def
      or_empty_def js_or_def id_text_def show_int_def replace_commas_def
      comma_in_mfc_def blank_def)

text \<open>
  C9, amended. The line of the record at position \<open>i\<close> of the snapshot is part of the
  export, and it is line \<open>i + 1\<close> of it when no cell of the snapshot holds a line break.
  Column \<open>k\<close> of that line is cell \<open>k\<close> of the record whenever no cell up to \<open>k\<close> holds a
  comma; so, when neither the id, the MFC nor the date cell holds a comma, the Date
  column is \<^verbatim>\<open>removalDate\<close> if that is present (defined and not empty) and the \<^verbatim>\<open>date\<close>
  property otherwise. The cell of every absent property is the empty string, never the
  text \<^verbatim>\<open>undefined\<close>.
\<close>

theorem export_line_columns:
  assumes "i < length data" and "row = data ! i"
  shows "sublist (row_line row) (exportToExcel data)
    \<and> ((\<forall>r \<in> set data. \<forall>cell \<in> set (row_cells r). CHR ''\<newline>'' \<notin> set cell) \<longrightarrow>
         split CHR ''\<newline>'' (exportToExcel data) ! Suc i = row_line row)
    \<and> (\<forall>k < 10. (\<forall>j \<le> k. CHR '','' \<notin> set (row_cells row ! j)) \<longrightarrow>
         split CHR '','' (row_line row) ! k = row_cells row ! k)
    \<and> ((\<forall>j \<le> 2. CHR '','' \<notin> set (row_cells row ! j)) \<longrightarrow>
         split CHR '','' (row_line row) ! 2 =
           (if truthy (removalDate row) then the (removalDate row)
            else case date row of None \<Rightarrow> [] | Some d \<Rightarrow> d))
    \<and> (id_field row = None \<longrightarrow> row_cells row ! 0 = [])
    \<and> (mfc row = None \<longrightarrow> row_cells row ! 1 = [])
    \<and> (removalDate row = None \<and> date row = None \<longrightarrow> row_cells row ! 2 = [])
    \<and> (taggedBy row = None \<longrightarrow> row_cells row ! 3 = [])
    \<and> (itemType row = None \<longrightarrow> row_cells row ! 4 = [])
    \<and> (partNumber row = None \<longrightarrow> row_cells row ! 5 = [])
    \<and> (removedFrom row = None \<longrightarrow> row_cells row ! 6 = [])
    \<and> (serviceCallId row = None \<longrightarrow> row_cells row ! 7 = [])
    \<and> (reasonRemove row = None \<longrightarrow> row_cells row ! 8 = [])
    \<and> (comments row = None \<longrightarrow> row_cells row ! 9 = [])"
proof -
  have len: "length (row_cells row) = 10" by (simp add: row_cells_def)
  have col: "split CHR '','' (row_line row) ! k = row_cells row ! k"
    if "k < 10" "\<forall>j \<le> k. CHR '','' \<notin> set (row_cells row ! j)" for k
    unfolding row_line_def using that len by (intro split_join_nth) simp_all
  have "row \<in> set data" using assms by simp
  then have part: "sublist (row_line row) (exportToExcel data)"
    by (rule row_line_in_export)
  have line: "split CHR ''\<newline>'' (exportToExcel data) ! Suc i = row_line row"
    if "\<forall>r \<in> set data. \<forall>cell \<in> set (row_cells r). CHR ''\<newline>'' \<notin> set cell"
    using split_export [OF that] assms by (simp add: csv_lines_def)
  have date: "split CHR '','' (row_line row) ! 2 =
           (if truthy (removalDate row) then the (removalDate row)
            else case date row of None \<Rightarrow> [] | Some d \<Rightarrow> d)"
    if "\<forall>j \<le> 2. CHR '','' \<notin> set (row_cells row ! j)"
    using col [of 2] that row_cells_date_and_missing [of row] by simp
  from part line col date row_cells_date_and_missing [of row] show ?thesis by blast
qed

text \<open>
  C9, amended, at a snapshot of three records: one with both date properties, one with
  \<^verbatim>\<open>date\<close> alone, and one with no property, whose line is nine commas and whose ten
  columns are empty.
\<close>

theorem export_line_columns_witness:
  "split CHR ''\<newline>'' (exportToExcel [both_dates, old_record, blank]) ! 1
     = ''1,HLN01,2024-03-01,,,MOT-001,LR0000,,Defected,''
   \<and> split CHR '','' (split CHR ''\<newline>'' (exportToExcel [both_dates, old_record, blank]) ! 1)
     = [''1'', ''HLN01'', ''2024-03-01'', [], [], ''MOT-001'', ''LR0000'', [], ''Defected'', []]
   \<and> split CHR ''\<newline>'' (exportToExcel [both_dates, old_record, blank]) ! 2
     = '',,2024-01-15,,,MOT-001,,,,''
   \<and> split CHR '','' (split CHR ''\<newline>'' (exportToExcel [both_dates, old_record, blank]) ! 2) ! 2
     = ''2024-01-15''
   \<and> split CHR ''\<newline>'' (exportToExcel [both_dates, old_record, blank]) ! 3 = '',,,,,,,,,''
   \<and> split CHR '','' (split CHR ''\<newline>'' (exportToExcel [both_dates, old_record, blank]) ! 3)
     = [[], [], [], [], [], [], [], [], [], []]"
proof -
  have cells: "row_cells both_dates =
      [''1'', ''HLN01'', ''2024-03-01'', [], [], ''MOT-001'', ''LR0000'', [], ''Defected'', []]"
    "row_cells old_record = [[], [], ''2024-01-15'', [], [], ''MOT-001'', [], [], [], []]"
    "row_cells blank = [[], [], [], [], [], [], [], [], [], []]"
    by (simp_all add: row_cells_def or_empty_def js_or_def id_text_def show_int_def
        replace_commas_def both_dates_def old_record_def blank_def)
  have lines: "row_line both_dates = ''1,HLN01,2024-03-01,,,MOT-001,LR0000,,Defected,''"
    "row_line old_record = '',,2024-01-15,,,MOT-001,,,,''"
    "row_line blank = '',,,,,,,,,''"
    by (simp_all add: row_line_def cells)
  have nl: "\<forall>r \<in> set [both_dates, old_record, blank].
      \<forall>cell \<in> set (row_cells r). CHR ''\<newline>'' \<notin> set cell"
    by (simp add: cells)
  have l1: "split CHR ''\<newline>'' (exportToExcel [both_dates, old_record, blank]) ! 1
      = row_line both_dates"
    using export_line_columns [of 0 "[both_dates, old_record, blank]" both_dates] nl by simp
  have l2: "split CHR ''\<newline>'' (exportToExcel [both_dates, old_record, blank]) ! 2
      = row_line old_record"
    using export_line_columns [of 1 "[both_dates, old_record, blank]" old_record] nl
    by (simp add: numeral_2_eq_2)
  have l3: "split CHR ''\<newline>'' (exportToExcel [both_dates, old_record, blank]) ! 3
      = row_line blank"
    using export_line_columns [of 2 "[both_dates, old_record, blank]" blank] nl
    by (simp add: numeral_3_eq_3)
  show ?thesis
    unfolding l1 l2 l3 lines by simp
qed

end
